theory Spec2Isabelle
  imports Main "HOL-Library.Word"
begin

section \<open>Data model of the USB transport (src/comms/transport/USBTransport.js)\<close>

text \<open>
  A Node \<open>Buffer\<close> is a list of bytes. JavaScript numbers that hold lengths, offsets and
  tags are natural numbers here; the range checks that the Buffer accessors apply to them
  are written out. An exception is a value of type \<open>error\<close>: \<open>Error msg\<close> is
  \<open>new Error(msg)\<close>; \<open>RangeError\<close> is the exception that \<open>readUInt32LE\<close> and
  \<open>writeUInt32LE\<close> raise on an access past the end of the buffer or on a value outside
  the unsigned 32-bit range (a \<open>RangeError\<close> in current releases of Node; older
  releases raise an exception of another class in the same cases); \<open>TypeError\<close> is a
  property access on \<open>null\<close> or \<open>undefined\<close>.
\<close>

type_synonym byte = "8 word"
type_synonym buffer = "byte list"

datatype error = Error string | RangeError | TypeError

text \<open>The two events the transport emits. \<open>Message tag buffer\<close> is
  \<open>emit('message', tag, buffer)\<close>. \<open>Debug message logLevel\<close> is
  \<open>emit('debug', message, logLevel)\<close>: the text is the result of the UTF-8 decoder,
  whose result type is left open; the level is \<open>data[pos + 1]\<close>, which is
  \<open>undefined\<close> (\<open>None\<close>) when the index is past the end of the chunk.\<close>

datatype message_event = Message nat buffer

datatype 'txt debug_event = Debug 'txt "byte option"

definition TRANSFER_SIZE :: nat where
  "TRANSFER_SIZE = 4096"

definition OVERSIZE_LIMIT :: nat where
  "OVERSIZE_LIMIT = 32 * 1024 * 1024"

subsection \<open>Buffer primitives\<close>

text \<open>\<open>buf.slice(start, end)\<close> and \<open>buf.slice(start)\<close>: both ends are clamped to the
  length, an empty range gives the empty buffer.\<close>

definition slice_buf :: "buffer \<Rightarrow> nat \<Rightarrow> nat \<Rightarrow> buffer" where
  "slice_buf buf start fin = take (fin - start) (drop start buf)"

definition slice_from :: "buffer \<Rightarrow> nat \<Rightarrow> buffer" where
  "slice_from buf start = drop start buf"

text \<open>\<open>buf[i]\<close>: \<open>undefined\<close> past the end.\<close>

definition index :: "buffer \<Rightarrow> nat \<Rightarrow> byte option" where
  "index buf i = (if i < length buf then Some (buf ! i) else None)"

text \<open>\<open>buf.readUInt32LE(offset)\<close>: raises when the four bytes do not lie inside the
  buffer, otherwise the little-endian value of the four bytes.\<close>

definition readUInt32LE :: "buffer \<Rightarrow> nat \<Rightarrow> error + nat" where
  "readUInt32LE buf offset =
     (if offset + 4 > length buf then Inl RangeError
      else Inr (unat (buf ! offset)
              + 256 * unat (buf ! (offset + 1))
              + 65536 * unat (buf ! (offset + 2))
              + 16777216 * unat (buf ! (offset + 3))))"

text \<open>\<open>header.writeUInt32LE(value, offset)\<close> on a buffer that has room for it: the four
  bytes written, least significant first; raises when the value does not fit in 32 bits.\<close>

definition writeUInt32LE :: "nat \<Rightarrow> error + buffer" where
  "writeUInt32LE v =
     (if v > 4294967295 then Inl RangeError
      else Inr [of_nat (v mod 256), of_nat (v div 256 mod 256),
                of_nat (v div 65536 mod 256), of_nat (v div 16777216 mod 256)])"

text \<open>\<open>buf.toString('hex', start, end)\<close>: two lower-case hexadecimal digits per byte.\<close>

definition hex_digit :: "nat \<Rightarrow> char" where
  "hex_digit n = ''0123456789abcdef'' ! n"

definition hex_byte :: "byte \<Rightarrow> string" where
  "hex_byte b = [hex_digit (unat b div 16), hex_digit (unat b mod 16)]"

definition toString_hex :: "buffer \<Rightarrow> nat \<Rightarrow> nat \<Rightarrow> string" where
  "toString_hex buf start fin = concat (map hex_byte (slice_buf buf start fin))"

text \<open>\<open>buf.toString('utf8', start, end)\<close>: the decoder \<open>dec\<close> applied to the bytes of
  the range.\<close>

definition toString_utf8 :: "(buffer \<Rightarrow> 'txt) \<Rightarrow> buffer \<Rightarrow> nat \<Rightarrow> nat \<Rightarrow> 'txt" where
  "toString_utf8 dec buf start fin = dec (slice_buf buf start fin)"

subsection \<open>Inbound message endpoint: the \<open>data\<close> handler of \<open>_initMessageInEndpoint\<close>\<close>

text \<open>
  The handler's state is the array \<open>buffers\<close> of chunks received so far. One call returns
  the new array, the events emitted and the exception thrown, if any. A throw leaves the
  array as it is at that point: the chunk has been pushed and nothing has been cleared.
\<close>

type_synonym step = "buffer list \<times> message_event list \<times> error option"

definition messagesIn_on_data :: "buffer list \<Rightarrow> buffer \<Rightarrow> step" where
  "messagesIn_on_data buffers0 data =
     (let buffers = buffers0 @ [data] in
      if length data < TRANSFER_SIZE then
        (let buffer = concat buffers in
         if length buffer > 0 then
           (case readUInt32LE buffer 0 of
              Inl e \<Rightarrow> (buffers, [], Some e)
            | Inr len \<Rightarrow>
               (case readUInt32LE buffer 4 of
                  Inl e \<Rightarrow> (buffers, [], Some e)
                | Inr tag \<Rightarrow> ([], [Message tag (slice_from buffer 8)], None)))
         else ([], [], None))
      else if length buffers * TRANSFER_SIZE > OVERSIZE_LIMIT then
        (buffers, [],
         Some (Error (''Malformed message (oversize): '' @ toString_hex (buffers ! 0) 0 8)))
      else (buffers, [], None))"

text \<open>The stream delivers the chunks of one endpoint in arrival order. A throw in the
  handler is not caught anywhere in the transport, so the run stops there.\<close>

fun messagesIn_feed :: "buffer list \<Rightarrow> buffer list \<Rightarrow> step" where
  "messagesIn_feed buffers [] = (buffers, [], None)"
| "messagesIn_feed buffers (data # rest) =
     (case messagesIn_on_data buffers data of
        (buffers', evs, Some e) \<Rightarrow> (buffers', evs, Some e)
      | (buffers', evs, None) \<Rightarrow>
          (case messagesIn_feed buffers' rest of
             (buffers'', evs', r) \<Rightarrow> (buffers'', evs @ evs', r)))"

subsection \<open>Outbound message endpoint: \<open>_postMessage\<close>\<close>

text \<open>The bytes handed to \<open>transferWithZLP\<close>: the 8-byte header followed by the data.
  A missing \<open>data\<close> argument is the empty buffer.\<close>

definition postMessage_bytes :: "nat \<Rightarrow> buffer option \<Rightarrow> error + buffer" where
  "postMessage_bytes tag data0 =
     (let data = (case data0 of None \<Rightarrow> [] | Some d \<Rightarrow> d) in
      case writeUInt32LE (length data) of
        Inl e \<Rightarrow> Inl e
      | Inr h0 \<Rightarrow>
         (case writeUInt32LE tag of
            Inl e \<Rightarrow> Inl e
          | Inr h4 \<Rightarrow> Inr (concat [h0 @ h4, data])))"

subsection \<open>Log endpoint: the \<open>data\<close> handler of \<open>_initLogEndpoint\<close>\<close>

text \<open>Decimal text of a number, as string concatenation with \<open>+\<close> produces it.\<close>

fun string_of_nat :: "nat \<Rightarrow> string" where
  "string_of_nat n =
     (if n < 10 then [''0123456789'' ! n]
      else string_of_nat (n div 10) @ [''0123456789'' ! (n mod 10)])"

declare string_of_nat.simps [simp del]

text \<open>The inner loop
  \<^verbatim>\<open>for (var i = pos + 2, l = data.length; i < l; i++) { if (data[i] === 1) break; }\<close>
  started at \<open>i\<close>: the value of \<open>i\<close> when it ends.\<close>

function scanSTX :: "buffer \<Rightarrow> nat \<Rightarrow> nat" where
  "scanSTX data i =
     (if i < length data then (if data ! i = 1 then i else scanSTX data (i + 1)) else i)"
  by pat_completeness auto
termination
  by (relation "measure (\<lambda>(data, i). length data - i)") auto

declare scanSTX.simps [simp del]

lemma scanSTX_ge: "i \<le> scanSTX data i"
proof (induction data i rule: scanSTX.induct)
  case (1 data i)
  show ?case
  proof (cases "i < length data \<and> data ! i \<noteq> 1")
    case True
    then have "scanSTX data i = scanSTX data (i + 1)"
      by (subst scanSTX.simps) simp
    moreover have "i + 1 \<le> scanSTX data (i + 1)"
      using True by (intro "1.IH") simp_all
    ultimately show ?thesis by simp
  next
    case False
    then have "scanSTX data i = i"
      by (subst scanSTX.simps) auto
    then show ?thesis by simp
  qed
qed

text \<open>The outer loop \<^verbatim>\<open>while (pos < data.length)\<close> from position \<open>pos\<close>: the debug
  events emitted, in order, and the exception that ended the loop, if any.\<close>

function log_loop :: "(buffer \<Rightarrow> 'txt) \<Rightarrow> buffer \<Rightarrow> nat \<Rightarrow> 'txt debug_event list \<times> error option" where
  "log_loop dec data pos =
     (if pos < length data then
        (if data ! pos \<noteq> 1 then
           ([], Some (Error (''Expected STX at '' @ string_of_nat pos @ '', got ''
                             @ string_of_nat (unat (data ! pos)) @ ''instead'')))
         else
           (let logLevel = index data (pos + 1);
                i = scanSTX data (pos + 2);
                message = toString_utf8 dec data (pos + 2) i
            in case log_loop dec data i of
                 (evs, r) \<Rightarrow> (Debug message logLevel # evs, r)))
      else ([], None))"
  by pat_completeness auto
termination
proof (relation "measure (\<lambda>(dec, data, pos). length data - pos)")
  show "wf (measure (\<lambda>(dec, data, pos). length data - pos))"
    by simp
next
  fix dec :: "buffer \<Rightarrow> 'txt" and data :: buffer and pos :: nat
    and x :: "byte option" and xa :: nat
  assume "pos < length data" and "xa = scanSTX data (pos + 2)"
  moreover have "pos + 2 \<le> scanSTX data (pos + 2)"
    by (rule scanSTX_ge)
  ultimately show "((dec, data, xa), dec, data, pos)
      \<in> measure (\<lambda>(dec, data, pos). length data - pos)"
    by simp
qed

declare log_loop.simps [simp del]

definition log_on_data :: "(buffer \<Rightarrow> 'txt) \<Rightarrow> buffer \<Rightarrow> 'txt debug_event list \<times> error option" where
  "log_on_data dec data = log_loop dec data 0"

subsection \<open>Device discovery: \<open>getDevices\<close> and \<open>getFirstDevice\<close>\<close>

text \<open>The fields of a USB device descriptor the transport reads; each is a 16-bit
  unsigned value in the descriptor. A device of \<open>usb.getDeviceList()\<close> carries its
  descriptor; whatever else it carries is the extension of the record.\<close>

record deviceDescriptor =
  idVendor :: "16 word"
  idProduct :: "16 word"
  bcdDevice :: "16 word"

record device =
  deviceDescriptor :: deviceDescriptor

definition TESSEL_VID :: int where
  "TESSEL_VID = 0x1d50"

definition TESSEL_PID :: int where
  "TESSEL_PID = 0x6097"

text \<open>JavaScript's \<open>x >> n\<close>: the operand is converted to a signed 32-bit integer and
  shifted right arithmetically.\<close>

definition js_shr :: "int \<Rightarrow> nat \<Rightarrow> int" where
  "js_shr x n = sint (signed_drop_bit n (word_of_int x :: 32 word))"

definition getDevices :: "('a device_scheme) list \<Rightarrow> ('a device_scheme) list" where
  "getDevices deviceList =
     filter (\<lambda>device.
        uint (idVendor (deviceDescriptor device)) = TESSEL_VID
        \<and> uint (idProduct (deviceDescriptor device)) = TESSEL_PID
        \<and> js_shr (uint (bcdDevice (deviceDescriptor device))) 8 \<noteq> 0) deviceList"

definition getFirstDevice :: "('a device_scheme) list \<Rightarrow> error + 'a device_scheme" where
  "getFirstDevice deviceList =
     (let devices = getDevices deviceList in
      if length devices = 0 then Inl (Error ''No Tessel devices found'')
      else Inr (devices ! 0))"

subsection \<open>Promises\<close>

text \<open>A promise is settled at most once: \<open>resolve\<close> and \<open>reject\<close> on a settled promise
  do nothing. An exception thrown inside the executor of \<open>new Promise\<close> is turned into a
  call of \<open>reject\<close>.\<close>

datatype 'a promise = Pending | Resolved 'a | Rejected error

definition resolve :: "'a \<Rightarrow> 'a promise \<Rightarrow> 'a promise" where
  "resolve v p = (case p of Pending \<Rightarrow> Resolved v | _ \<Rightarrow> p)"

definition reject :: "error \<Rightarrow> 'a promise \<Rightarrow> 'a promise" where
  "reject e p = (case p of Pending \<Rightarrow> Rejected e | _ \<Rightarrow> p)"

text \<open>\<open>resolve(q)\<close> with a promise \<open>q\<close> as the value: the promise follows \<open>q\<close>.\<close>

definition resolve_with :: "'a promise \<Rightarrow> 'a promise \<Rightarrow> 'a promise" where
  "resolve_with q p = (case p of Pending \<Rightarrow> q | _ \<Rightarrow> p)"

text \<open>\<open>p.then(f)\<close> for an \<open>f\<close> that returns a plain value.\<close>

definition then_value :: "'a promise \<Rightarrow> ('a \<Rightarrow> 'b) \<Rightarrow> 'b promise" where
  "then_value p f =
     (case p of Pending \<Rightarrow> Pending | Resolved v \<Rightarrow> Resolved (f v) | Rejected e \<Rightarrow> Rejected e)"

text \<open>\<open>Promise.all([p, q])\<close>: rejected with the reason of the promise that is rejected
  first, resolved when both are. \<open>q_first\<close> tells that \<open>q\<close> was settled before \<open>p\<close>.\<close>

definition promise_all2 :: "bool \<Rightarrow> 'a promise \<Rightarrow> 'b promise \<Rightarrow> ('a \<times> 'b) promise" where
  "promise_all2 q_first p q =
     (case (p, q) of
        (Rejected e, Rejected e') \<Rightarrow> Rejected (if q_first then e' else e)
      | (Rejected e, _) \<Rightarrow> Rejected e
      | (_, Rejected e') \<Rightarrow> Rejected e'
      | (Resolved a, Resolved b) \<Rightarrow> Resolved (a, b)
      | _ \<Rightarrow> Pending)"

subsection \<open>Session set-up: \<open>_getDeviceSerial\<close>, \<open>_getDeviceInterface\<close>, \<open>init\<close>\<close>

text \<open>
  What the USB library does during one run of \<open>init\<close>:
  \<^item> \<open>deviceList\<close>: the result of \<open>usb.getDeviceList()\<close>;
  \<^item> \<open>open_throws\<close>: the exception of \<open>device.open()\<close>, if it throws;
  \<^item> \<open>serial_cb\<close>: the arguments \<open>(err, serialNumber)\<close> with which the callback of
    \<open>getStringDescriptor\<close> is called (\<open>Inl err\<close> or \<open>Inr serialNumber\<close>), \<open>None\<close> if it
    is never called;
  \<^item> \<open>claim_throws\<close>: the exception of \<open>interface.claim()\<close>, if it throws;
  \<^item> \<open>setAlt_cb\<close>: the argument \<open>err\<close> with which the callback of \<open>setAltSetting\<close> is
    called, \<open>None\<close> if it is never called;
  \<^item> \<open>initEndpoints_throws\<close>: the exception of \<open>_initEndpoints()\<close>, if it throws (a
    missing endpoint, a stream that cannot start);
  \<^item> \<open>serial_first\<close>: the callback of \<open>getStringDescriptor\<close> runs before the callback
    of \<open>setAltSetting\<close>.
  Both callbacks run after \<open>init\<close> has returned: they complete asynchronous transfers.
\<close>

record 'a usb_env =
  deviceList :: "('a device_scheme) list"
  open_throws :: "error option"
  serial_cb :: "(error + string) option"
  claim_throws :: "error option"
  setAlt_cb :: "error option option"
  initEndpoints_throws :: "error option"
  serial_first :: bool

text \<open>\<open>e.message === m\<close>. The messages of the runtime's own \<open>RangeError\<close> and
  \<open>TypeError\<close> are not names of libusb errors.\<close>

definition message_is :: "error \<Rightarrow> string \<Rightarrow> bool" where
  "message_is e m = (case e of Error m' \<Rightarrow> m' = m | _ \<Rightarrow> False)"

definition getDeviceSerial :: "(error + string) option \<Rightarrow> string promise" where
  "getDeviceSerial cb =
     (case cb of
        None \<Rightarrow> Pending
      | Some (Inl err) \<Rightarrow> reject err Pending
      | Some (Inr serialNumber) \<Rightarrow> resolve serialNumber Pending)"

text \<open>The executor of \<open>_getDeviceInterface\<close>, which runs inside the call: the
  \<open>try\<close>/\<open>catch\<close> around \<open>interface.claim()\<close>. Neither \<open>reject\<close> is followed by a
  \<open>return\<close>, so \<open>setAltSetting\<close> is requested in every case.\<close>

definition getDeviceInterface_executor :: "error option \<Rightarrow> unit promise" where
  "getDeviceInterface_executor claim =
     (case claim of
        None \<Rightarrow> Pending
      | Some e \<Rightarrow>
          (let p = (if message_is e ''LIBUSB_ERROR_BUSY''
                    then reject (Error ''Device is in use by another process'') Pending
                    else Pending)
           in reject e p))"

text \<open>The callback of \<open>setAltSetting\<close>: \<open>if (err) reject(err)\<close>, then the endpoints are
  bound and initialised, then \<open>resolve()\<close>, which a throw of \<open>_initEndpoints\<close> skips.\<close>

definition setAltSetting_callback :: "error option \<Rightarrow> error option \<Rightarrow> unit promise \<Rightarrow> unit promise" where
  "setAltSetting_callback err endpoints_throw p =
     (let p1 = (case err of Some e \<Rightarrow> reject e p | None \<Rightarrow> p) in
      case endpoints_throw of Some _ \<Rightarrow> p1 | None \<Rightarrow> resolve () p1)"

definition getDeviceInterface :: "error option \<Rightarrow> error option option \<Rightarrow> error option \<Rightarrow> unit promise" where
  "getDeviceInterface claim alt_cb endpoints_throw =
     (let p = getDeviceInterface_executor claim in
      case alt_cb of
        None \<Rightarrow> p
      | Some err \<Rightarrow> setAltSetting_callback err endpoints_throw p)"

text \<open>The callback of \<open>then\<close> in \<open>init\<close>. Its argument, named \<open>serial\<close> in the
  source, is the array of both results of \<open>Promise.all\<close>; as text an array is its
  elements joined by commas, the second one, \<open>undefined\<close>, being empty. The callback
  schedules the \<open>debug\<close> event with that text and returns the transport, \<open>()\<close> here.\<close>

definition init_then :: "string \<times> unit \<Rightarrow> string list \<times> unit" where
  "init_then serial = ([''Connected to device '' @ fst serial @ '',''], ())"

text \<open>
  \<open>init\<close>: the promise it returns, once every callback of the run has been called; it
  resolves with the debug text scheduled and the transport. When \<open>getFirstDevice\<close>
  throws, \<open>reject(e)\<close> is not followed by a \<open>return\<close>: \<open>_device\<close> is \<open>null\<close> and
  \<open>_device.open()\<close> raises a \<open>TypeError\<close> inside the executor, which the settled promise
  ignores. The interface promise is rejected inside the call of \<open>_getDeviceInterface\<close>
  when \<open>claim\<close> throws, so before any callback.
\<close>

definition init :: "'a usb_env \<Rightarrow> (string list \<times> unit) promise" where
  "init env =
     (case getFirstDevice (deviceList env) of
        Inl e \<Rightarrow> reject TypeError (reject e Pending)
      | Inr dev \<Rightarrow>
         (case open_throws env of
            Some e \<Rightarrow> reject e Pending
          | None \<Rightarrow>
             (let serial = getDeviceSerial (serial_cb env);
                  interface = getDeviceInterface (claim_throws env) (setAlt_cb env)
                                (initEndpoints_throws env);
                  interface_first =
                    (getDeviceInterface_executor (claim_throws env) \<noteq> Pending
                     \<or> \<not> serial_first env)
              in resolve_with
                   (then_value (promise_all2 interface_first serial interface) init_then)
                   Pending)))"

subsection \<open>Shutdown: \<open>close\<close>\<close>

text \<open>The two fields of the transport that \<open>close\<close> reads: \<open>_device\<close>, the device
  handle (open or closed), and \<open>_interface\<close>, the interface object of
  \<open>device.interface(0)\<close>; \<open>None\<close> is \<open>null\<close> or \<open>undefined\<close>. Whether the interface
  is claimed is known to the USB library, not to the transport: \<open>claimed\<close> records it
  and no function of the transport reads it.\<close>

record device_handle =
  isOpen :: bool

record interface =
  claimed :: bool

record transport =
  t_device :: "device_handle option"
  t_interface :: "interface option"

text \<open>The fields as \<open>init\<close> leaves them: \<open>_device\<close> is assigned when a device is found
  and then opened; \<open>_interface\<close> is assigned in \<open>_getDeviceInterface\<close> before
  \<open>interface.claim()\<close> is called, so it is set whether or not the claim succeeds.\<close>

definition init_fields :: "'a usb_env \<Rightarrow> transport" where
  "init_fields env =
     (case getFirstDevice (deviceList env) of
        Inl e \<Rightarrow> \<lparr>t_device = None, t_interface = None\<rparr>
      | Inr dev \<Rightarrow>
         (case open_throws env of
            Some e \<Rightarrow> \<lparr>t_device = Some \<lparr>isOpen = False\<rparr>, t_interface = None\<rparr>
          | None \<Rightarrow>
              \<lparr>t_device = Some \<lparr>isOpen = True\<rparr>,
               t_interface = Some \<lparr>claimed = (claim_throws env = None)\<rparr>\<rparr>))"

text \<open>The calls \<open>close\<close> makes into the USB library: \<open>_interface.release(true, cb)\<close>
  and \<open>_device.close()\<close>.\<close>

datatype usb_call = InterfaceRelease bool | DeviceClose

text \<open>
  What the USB library does during one run of \<open>close\<close>; neither call is inside a
  \<open>try\<close>:
  \<^item> \<open>release_outcome\<close>: \<open>release\<close> throws inside the call (\<open>ReleaseThrows e\<close>), or
    returns and later calls its callback with the argument \<open>err\<close>
    (\<open>ReleaseCallback err\<close>), or returns and never calls it (\<open>ReleaseNoCallback\<close>);
  \<^item> \<open>device_close_throws\<close>: the exception of \<open>_device.close()\<close>, if it throws.
\<close>

datatype release_outcome =
  ReleaseThrows error | ReleaseCallback "error option" | ReleaseNoCallback

record close_env =
  release_outcome :: release_outcome
  device_close_throws :: "error option"

text \<open>The executor of the promise of \<open>close\<close>. \<open>if (!_this._interface) resolve()\<close> is
  not followed by a \<open>return\<close>: with \<open>_interface\<close> unset, \<open>_interface.release\<close> raises a
  \<open>TypeError\<close> inside the executor, after the promise has been resolved. With
  \<open>_interface\<close> set, an exception that \<open>release\<close> throws inside the call leaves the
  executor and rejects the promise.\<close>

definition close_executor :: "release_outcome \<Rightarrow> transport \<Rightarrow> unit promise \<times> usb_call list" where
  "close_executor rel t =
     (case t_interface t of
        None \<Rightarrow> (reject TypeError (resolve () Pending), [])
      | Some i \<Rightarrow>
          (case rel of
             ReleaseThrows e \<Rightarrow> (reject e Pending, [InterfaceRelease True])
           | _ \<Rightarrow> (Pending, [InterfaceRelease True])))"

text \<open>The callback of \<open>release\<close>; its argument \<open>err\<close> is not read. The result is the
  transport, the promise, the library calls made, and the exception that leaves the
  callback, if any. When \<open>_device.close()\<close> throws, the two statements after it are
  skipped: \<open>_interface\<close> stays set and \<open>resolve\<close> is not called; nothing in the
  transport catches the exception.\<close>

definition close_release_callback ::
  "error option \<Rightarrow> error option \<Rightarrow> transport \<Rightarrow> unit promise
     \<Rightarrow> transport \<times> unit promise \<times> usb_call list \<times> error option" where
  "close_release_callback err dev_close t p =
     (case t_device t of
        Some d \<Rightarrow>
          (case dev_close of
             Some e \<Rightarrow> (t, p, [DeviceClose], Some e)
           | None \<Rightarrow>
               (t\<lparr>t_device := Some (d\<lparr>isOpen := False\<rparr>), t_interface := None\<rparr>,
                resolve () p, [DeviceClose], None))
      | None \<Rightarrow> (t\<lparr>t_interface := None\<rparr>, resolve () p, [], None))"

text \<open>\<open>close\<close>: the transport afterwards, the promise once every callback of the run
  has been called, the library calls made, and the exception that escaped from the
  callback, if any. The callback runs only when \<open>release\<close> returned and calls it.\<close>

definition close ::
  "close_env \<Rightarrow> transport \<Rightarrow> transport \<times> unit promise \<times> usb_call list \<times> error option" where
  "close env t =
     (case close_executor (release_outcome env) t of
        (p, calls) \<Rightarrow>
          (case t_interface t of
             None \<Rightarrow> (t, p, calls, None)
           | Some _ \<Rightarrow>
              (case release_outcome env of
                 ReleaseCallback err \<Rightarrow>
                   (case close_release_callback err (device_close_throws env) t p of
                      (t', p', calls', escaped) \<Rightarrow> (t', p', calls @ calls', escaped))
               | _ \<Rightarrow> (t, p, calls, None))))"

section \<open>Notions of the specification\<close>

text \<open>A 32-bit unsigned value in little-endian order: byte \<open>k\<close> holds digit \<open>k\<close> of the
  value in base 256.\<close>

definition le32 :: "nat \<Rightarrow> buffer" where
  "le32 v = map (\<lambda>k. of_nat (v div 256 ^ k mod 256)) [0, 1, 2, 3]"

text \<open>A frame: an 8-byte header whose first field is the payload length, followed by
  that many bytes of payload.\<close>

definition valid_frame :: "buffer \<Rightarrow> bool" where
  "valid_frame b = (8 \<le> length b \<and> length b - 8 < 2 ^ 32 \<and> take 4 b = le32 (length b - 8))"

text \<open>A chunk sequence that ends one message: every chunk but the last has exactly the
  maximum chunk size, the last one is strictly shorter.\<close>

fun chunked :: "buffer list \<Rightarrow> bool" where
  "chunked [] = False"
| "chunked [c] = (length c < TRANSFER_SIZE)"
| "chunked (c # cs) = (length c = TRANSFER_SIZE \<and> chunked cs)"

text \<open>A well-formed log chunk: for each record the marker STX (1), the severity byte and
  the bytes of the text.\<close>

fun log_chunk :: "(byte \<times> buffer) list \<Rightarrow> buffer" where
  "log_chunk [] = []"
| "log_chunk ((level, msg) # records) = 1 # level # msg @ log_chunk records"

text \<open>A candidate device: the target vendor and product identifiers, and a
  firmware-version field whose high byte is not zero.\<close>

definition tessel_candidate :: "'a device_scheme \<Rightarrow> bool" where
  "tessel_candidate d =
     (unat (idVendor (deviceDescriptor d)) = 0x1D50
      \<and> unat (idProduct (deviceDescriptor d)) = 0x6097
      \<and> unat (bcdDevice (deviceDescriptor d)) div 256 \<noteq> 0)"

subsection \<open>Concrete inputs\<close>

text \<open>A valid frame of 33558528 bytes (tag 0, 33558520 zero bytes of payload) as 8193
  full chunks and a final empty chunk.\<close>

definition oversize_frame_chunks :: "buffer list" where
  "oversize_frame_chunks =
     ([0xF8, 0x0F, 0x00, 0x02, 0, 0, 0, 0] @ replicate 4088 0)
     # replicate 8192 (replicate 4096 0) @ [[]]"

text \<open>The frame of tag 5 with 33558521 zero bytes of payload as 8193 full chunks and a
  final chunk of one byte.\<close>

definition oversize_post_chunks :: "buffer list" where
  "oversize_post_chunks =
     ([0xF9, 0x0F, 0x00, 0x02, 5, 0, 0, 0] @ replicate 4088 0)
     # replicate 8192 (replicate 4096 0) @ [[0]]"

text \<open>A run of \<open>init\<close> in which one device is attached and opens, and the claim of its
  interface fails because another process holds it.\<close>

definition busy_env :: "unit usb_env" where
  "busy_env =
     \<lparr>deviceList =
        [\<lparr>deviceDescriptor = \<lparr>idVendor = 0x1D50, idProduct = 0x6097, bcdDevice = 0x0100\<rparr>\<rparr>],
      open_throws = None,
      serial_cb = Some (Inr ''TM-00-04''),
      claim_throws = Some (Error ''LIBUSB_ERROR_BUSY''),
      setAlt_cb = Some (Some (Error ''LIBUSB_ERROR_NOT_FOUND'')),
      initEndpoints_throws = None,
      serial_first = True\<rparr>"

section \<open>The inbound message decoder and the post-message path\<close>

subsection \<open>One call of the handler\<close>

lemma on_data_short_frame:
  assumes "length data < TRANSFER_SIZE" and "8 \<le> length (concat (buffers @ [data]))"
  shows "messagesIn_on_data buffers data =
     ([], [Message (unat (concat (buffers @ [data]) ! 4)
                    + 256 * unat (concat (buffers @ [data]) ! 5)
                    + 65536 * unat (concat (buffers @ [data]) ! 6)
                    + 16777216 * unat (concat (buffers @ [data]) ! 7))
             (drop 8 (concat (buffers @ [data])))], None)"
proof -
  let ?b = "concat (buffers @ [data])"
  have r0: "\<exists>len. readUInt32LE ?b 0 = Inr len"
    using assms(2) by (simp add: readUInt32LE_def)
  have r4: "readUInt32LE ?b 4 = Inr (unat (?b ! 4) + 256 * unat (?b ! 5)
                    + 65536 * unat (?b ! 6) + 16777216 * unat (?b ! 7))"
    using assms(2) by (simp add: readUInt32LE_def)
  have pos: "0 < length ?b" using assms(2) by linarith
  from r0 obtain len where "readUInt32LE ?b 0 = Inr len" ..
  with r4 pos assms(1) show ?thesis
    unfolding messagesIn_on_data_def Let_def slice_from_def by simp
qed

lemma on_data_short_header:
  assumes "length data < TRANSFER_SIZE"
    and "1 \<le> length (concat (buffers @ [data]))"
    and "length (concat (buffers @ [data])) \<le> 7"
  shows "messagesIn_on_data buffers data = (buffers @ [data], [], Some RangeError)"
proof -
  let ?b = "concat (buffers @ [data])"
  have pos: "0 < length ?b" using assms(2) by linarith
  show ?thesis
  proof (cases "length ?b < 4")
    case True
    then have "readUInt32LE ?b 0 = Inl RangeError"
      by (simp add: readUInt32LE_def)
    with pos assms(1) show ?thesis
      unfolding messagesIn_on_data_def Let_def by simp
  next
    case False
    then have "\<exists>len. readUInt32LE ?b 0 = Inr len"
      by (simp add: readUInt32LE_def)
    then obtain len where r0: "readUInt32LE ?b 0 = Inr len" ..
    have "readUInt32LE ?b 4 = Inl RangeError"
      using assms(3) by (simp add: readUInt32LE_def)
    with r0 pos assms(1) show ?thesis
      unfolding messagesIn_on_data_def Let_def by simp
  qed
qed

lemma on_data_short_empty:
  assumes "length data < TRANSFER_SIZE" and "concat (buffers @ [data]) = []"
  shows "messagesIn_on_data buffers data = ([], [], None)"
  using assms unfolding messagesIn_on_data_def Let_def by simp

subsection \<open>A run of the handler over a sequence of chunks\<close>

lemma on_data_full:
  assumes "TRANSFER_SIZE \<le> length data"
  shows "messagesIn_on_data buffers data =
     (if (length buffers + 1) * TRANSFER_SIZE > OVERSIZE_LIMIT
      then (buffers @ [data], [],
            Some (Error (''Malformed message (oversize): ''
                         @ toString_hex ((buffers @ [data]) ! 0) 0 8)))
      else (buffers @ [data], [], None))"
  using assms unfolding messagesIn_on_data_def Let_def by simp

lemma feed_full:
  assumes "\<forall>c \<in> set cs. TRANSFER_SIZE \<le> length c"
    and "(length bs + length cs) * TRANSFER_SIZE \<le> OVERSIZE_LIMIT"
  shows "messagesIn_feed bs cs = (bs @ cs, [], None)"
  using assms
proof (induction cs arbitrary: bs)
  case Nil
  then show ?case by simp
next
  case (Cons c cs)
  have le: "(length bs + 1) * TRANSFER_SIZE \<le> (length bs + length (c # cs)) * TRANSFER_SIZE"
    by (rule mult_le_mono1) simp
  have "\<not> OVERSIZE_LIMIT < (length bs + 1) * TRANSFER_SIZE"
    using Cons.prems(2) le by linarith
  moreover have "TRANSFER_SIZE \<le> length c"
    using Cons.prems(1) by simp
  ultimately have step: "messagesIn_on_data bs c = (bs @ [c], [], None)"
    by (simp only: on_data_full if_False)
  have "messagesIn_feed (bs @ [c]) cs = ((bs @ [c]) @ cs, [], None)"
    using Cons.prems by (intro Cons.IH) simp_all
  with step show ?case by simp
qed

lemma feed_append:
  "messagesIn_feed bs (xs @ ys) =
     (case messagesIn_feed bs xs of
        (bs', evs, Some e) \<Rightarrow> (bs', evs, Some e)
      | (bs', evs, None) \<Rightarrow>
          (case messagesIn_feed bs' ys of (bs'', evs', r) \<Rightarrow> (bs'', evs @ evs', r)))"
proof (induction xs arbitrary: bs)
  case Nil
  show ?case by (simp split: prod.splits)
next
  case (Cons x xs)
  show ?case
    by (simp add: Cons.IH split: prod.splits option.splits)
qed

lemma limit_chunks: "n * TRANSFER_SIZE \<le> OVERSIZE_LIMIT \<longleftrightarrow> n \<le> 8192"
  by (simp add: TRANSFER_SIZE_def OVERSIZE_LIMIT_def)

lemma feed_oversize:
  assumes full: "\<forall>c \<in> set cs. length c = TRANSFER_SIZE"
    and big: "OVERSIZE_LIMIT < length cs * TRANSFER_SIZE"
  shows "messagesIn_feed [] (cs @ rest) =
     (take 8193 cs, [],
      Some (Error (''Malformed message (oversize): '' @ toString_hex (hd cs) 0 8)))"
proof -
  have len: "8193 \<le> length cs"
    using big limit_chunks [of "length cs"] by simp
  define pre where "pre = take 8192 cs"
  define c where "c = cs ! 8192"
  define post where "post = drop 8193 cs"
  have split: "cs = pre @ c # post"
    unfolding pre_def c_def post_def using len
  proof -
    have "8192 < length cs"
      using len by simp
    then have "drop 8192 cs = cs ! 8192 # drop (Suc 8192) cs"
      by (rule Cons_nth_drop_Suc [symmetric])
    moreover have "Suc 8192 = 8193"
      by simp
    moreover have "cs = take 8192 cs @ drop 8192 cs"
      by simp
    ultimately show "cs = take 8192 cs @ cs ! 8192 # drop 8193 cs"
      by simp
  qed
  have pre_len: "length pre = 8192"
    unfolding pre_def using len by simp
  have pre_full: "\<forall>c \<in> set pre. TRANSFER_SIZE \<le> length c"
  proof
    fix x
    assume "x \<in> set pre"
    then have "x \<in> set cs"
      by (subst split) simp
    with full show "TRANSFER_SIZE \<le> length x"
      by simp
  qed
  have "(length ([] :: buffer list) + length pre) * TRANSFER_SIZE \<le> OVERSIZE_LIMIT"
    using pre_len by (simp add: limit_chunks)
  with pre_full have feed_pre: "messagesIn_feed [] pre = ([] @ pre, [], None)"
    by (rule feed_full)
  have "c \<in> set cs"
    by (subst split) simp
  with full have c_full: "TRANSFER_SIZE \<le> length c"
    by simp
  have over: "OVERSIZE_LIMIT < (length pre + 1) * TRANSFER_SIZE"
    using pre_len limit_chunks [of 8193] by simp
  have hd0: "(pre @ [c]) ! 0 = hd cs"
    using split pre_len by (cases pre) simp_all
  have take_eq: "take 8193 cs = pre @ [c]"
    using split pre_len by simp
  have step: "messagesIn_on_data pre c =
      (pre @ [c], [],
       Some (Error (''Malformed message (oversize): '' @ toString_hex (hd cs) 0 8)))"
    using c_full over hd0 by (simp only: on_data_full if_True)
  have "messagesIn_feed [] (cs @ rest) = messagesIn_feed [] (pre @ (c # post @ rest))"
    using split by simp
  also have "\<dots> = (pre @ [c], [],
       Some (Error (''Malformed message (oversize): '' @ toString_hex (hd cs) 0 8)))"
    by (simp add: feed_append [of "[]" pre] feed_pre step)
  finally show ?thesis
    using take_eq by simp
qed

lemma feed_full_prefix:
  assumes "\<forall>c \<in> set cs. length c = TRANSFER_SIZE" and "n \<le> 8192"
  shows "messagesIn_feed [] (take n cs) = (take n cs, [], None)"
proof -
  have "\<forall>c \<in> set (take n cs). TRANSFER_SIZE \<le> length c"
    using assms(1) by (auto dest: in_set_takeD)
  moreover have "(length ([] :: buffer list) + length (take n cs)) * TRANSFER_SIZE \<le> OVERSIZE_LIMIT"
    using assms(2) by (simp add: limit_chunks)
  ultimately have "messagesIn_feed [] (take n cs) = ([] @ take n cs, [], None)"
    by (rule feed_full)
  then show ?thesis by simp
qed

lemma length_concat_full:
  "\<forall>c \<in> set cs. length c = n \<Longrightarrow> length (concat cs) = length cs * n"
  by (induction cs) simp_all

lemma concat_butlast_last: "cs \<noteq> [] \<Longrightarrow> concat cs = concat (butlast cs) @ last cs"
  by (induction cs) simp_all

lemma chunked_iff:
  "chunked cs \<longleftrightarrow>
     cs \<noteq> [] \<and> (\<forall>c \<in> set (butlast cs). length c = TRANSFER_SIZE)
     \<and> length (last cs) < TRANSFER_SIZE"
  by (induction cs rule: chunked.induct) auto

lemma feed_chunked:
  assumes ch: "chunked chunks"
    and fit: "(length chunks - 1) * TRANSFER_SIZE \<le> OVERSIZE_LIMIT"
  shows "messagesIn_feed [] chunks = messagesIn_on_data (butlast chunks) (last chunks)"
proof -
  have ne: "chunks \<noteq> []"
    and full: "\<forall>c \<in> set (butlast chunks). length c = TRANSFER_SIZE"
    using ch by (simp_all add: chunked_iff)
  have "\<forall>c \<in> set (butlast chunks). TRANSFER_SIZE \<le> length c"
    using full by simp
  moreover have "(length ([] :: buffer list) + length (butlast chunks)) * TRANSFER_SIZE
      \<le> OVERSIZE_LIMIT"
    using fit by simp
  ultimately have pre: "messagesIn_feed [] (butlast chunks) = ([] @ butlast chunks, [], None)"
    by (rule feed_full)
  have "messagesIn_feed [] chunks = messagesIn_feed [] (butlast chunks @ [last chunks])"
    using ne by simp
  also have "\<dots> = messagesIn_on_data (butlast chunks) (last chunks)"
    by (simp add: feed_append [of "[]" "butlast chunks"] pre split: prod.splits option.splits)
  finally show ?thesis .
qed

lemma feed_before_short:
  assumes ch: "chunked chunks"
    and fit: "(length chunks - 1) * TRANSFER_SIZE \<le> OVERSIZE_LIMIT"
    and n: "n < length chunks"
  shows "messagesIn_feed [] (take n chunks) = (take n chunks, [], None)"
proof -
  have full: "\<forall>c \<in> set (butlast chunks). length c = TRANSFER_SIZE"
    using ch by (simp add: chunked_iff)
  have tk: "take n chunks = take n (butlast chunks)"
    using n by (simp add: take_butlast)
  have "n \<le> length chunks - 1"
    using n by simp
  then have "n * TRANSFER_SIZE \<le> (length chunks - 1) * TRANSFER_SIZE"
    by (rule mult_le_mono1)
  then have "n * TRANSFER_SIZE \<le> OVERSIZE_LIMIT"
    using fit by (rule order_trans)
  then have "n \<le> 8192"
    by (simp only: limit_chunks)
  with full have "messagesIn_feed [] (take n (butlast chunks)) = (take n (butlast chunks), [], None)"
    by (rule feed_full_prefix)
  with tk show ?thesis by simp
qed

lemma concat_replicate_replicate: "concat (replicate n (replicate m x)) = replicate (n * m) x"
  by (induction n) (simp_all add: replicate_add)

lemma oversize_chunks_general:
  assumes "length c0 = 4096" and "length cl < 4096"
  shows "chunked (c0 # replicate 8192 (replicate 4096 z) @ [cl])"
    and "messagesIn_feed [] (c0 # replicate 8192 (replicate 4096 z) @ [cl])
         = (c0 # replicate 8192 (replicate 4096 z), [],
            Some (Error (''Malformed message (oversize): '' @ concat (map hex_byte (take 8 c0)))))"
proof -
  show "chunked (c0 # replicate 8192 (replicate 4096 z) @ [cl])"
    using assms by (simp add: chunked_iff TRANSFER_SIZE_def butlast_append)
  have full: "\<forall>c \<in> set (c0 # replicate 8192 (replicate 4096 z)). length c = TRANSFER_SIZE"
    using assms by (simp add: TRANSFER_SIZE_def)
  have big: "OVERSIZE_LIMIT < length (c0 # replicate 8192 (replicate 4096 z)) * TRANSFER_SIZE"
    by (simp add: TRANSFER_SIZE_def OVERSIZE_LIMIT_def)
  have "messagesIn_feed [] ((c0 # replicate 8192 (replicate 4096 z)) @ [cl])
      = (take 8193 (c0 # replicate 8192 (replicate 4096 z)), [],
         Some (Error (''Malformed message (oversize): ''
                      @ toString_hex (hd (c0 # replicate 8192 (replicate 4096 z))) 0 8)))"
    using full big by (rule feed_oversize)
  then show "messagesIn_feed [] (c0 # replicate 8192 (replicate 4096 z) @ [cl])
         = (c0 # replicate 8192 (replicate 4096 z), [],
            Some (Error (''Malformed message (oversize): '' @ concat (map hex_byte (take 8 c0)))))"
    by (simp add: toString_hex_def slice_buf_def)
qed

subsection \<open>Little-endian header fields\<close>

lemma writeUInt32LE_le32: "v < 2 ^ 32 \<Longrightarrow> writeUInt32LE v = Inr (le32 v)"
  by (simp add: writeUInt32LE_def le32_def)

lemma length_le32: "length (le32 v) = 4"
  by (simp add: le32_def)

lemma unat_byte: "unat (of_nat (n mod 256) :: byte) = n mod 256"
  by (simp add: unat_of_nat)

lemma le32_digits:
  fixes v :: nat
  assumes "v < 2 ^ 32"
  shows "v mod 256 + 256 * (v div 256 mod 256) + 65536 * (v div 65536 mod 256)
         + 16777216 * (v div 16777216 mod 256) = v"
proof -
  have "v div 16777216 mod 256 = v div 16777216"
    using assms by (intro mod_less) (simp add: less_mult_imp_div_less)
  moreover have "v div 65536 = 256 * (v div 16777216) + v div 65536 mod 256"
    using div_mult2_eq [of v 65536 256] by simp
  moreover have "v div 256 = 256 * (v div 65536) + v div 256 mod 256"
    using div_mult2_eq [of v 256 256] by simp
  moreover have "v = 256 * (v div 256) + v mod 256"
    by simp
  ultimately show ?thesis
    by linarith
qed

lemma read_le32:
  assumes "v < 2 ^ 32"
  shows "readUInt32LE (pre @ le32 v @ post) (length pre) = Inr v"
proof -
  have "readUInt32LE (pre @ le32 v @ post) (length pre) =
      Inr (v mod 256 + 256 * (v div 256 mod 256) + 65536 * (v div 65536 mod 256)
           + 16777216 * (v div 16777216 mod 256))"
    by (simp add: readUInt32LE_def le32_def nth_append unat_byte del: mod_div_trivial)
  then show ?thesis
    by (simp only: le32_digits [OF assms])
qed

lemma postMessage_encoding:
  assumes "tag < 2 ^ 32" and "length payload < 2 ^ 32"
  shows "postMessage_bytes tag (Some payload) = Inr (le32 (length payload) @ le32 tag @ payload)"
  unfolding postMessage_bytes_def Let_def
  by (simp add: writeUInt32LE_le32 [OF assms(1)] writeUInt32LE_le32 [OF assms(2)])

subsection \<open>Claims about the message channel\<close>

text \<open>
  Claim C1 (as amended). For every tag in the unsigned 32-bit range and every payload
  whose frame is shorter than 8193 maximum-size chunks, the post-message path produces
  the bytes [payload length as LE32][tag as LE32][payload]; and when those bytes reach
  the inbound decoder as a chunk sequence that ends in a short chunk, the decoder emits
  exactly the event \<open>message(tag, payload)\<close> and leaves the accumulation array empty.
\<close>

theorem postMessage_roundtrip:
  assumes tag: "tag < 2 ^ 32"
    and size: "length payload + 8 < 8193 * TRANSFER_SIZE"
    and ch: "chunked chunks"
    and wire: "Inr (concat chunks) = postMessage_bytes tag (Some payload)"
  shows "postMessage_bytes tag (Some payload) = Inr (le32 (length payload) @ le32 tag @ payload)
         \<and> messagesIn_feed [] chunks = ([], [Message tag payload], None)"
proof -
  have len: "length payload < 2 ^ 32"
    using size by (simp add: TRANSFER_SIZE_def)
  have enc: "postMessage_bytes tag (Some payload) = Inr (le32 (length payload) @ le32 tag @ payload)"
    using tag len by (rule postMessage_encoding)
  with wire have cc: "concat chunks = le32 (length payload) @ le32 tag @ payload"
    by simp
  have total: "length (concat chunks) = length payload + 8"
    by (simp add: cc length_le32)
  have ne: "chunks \<noteq> []" and short: "length (last chunks) < TRANSFER_SIZE"
    and full: "\<forall>c \<in> set (butlast chunks). length c = TRANSFER_SIZE"
    using ch by (simp_all add: chunked_iff)
  have "length (concat (butlast chunks)) = length (butlast chunks) * TRANSFER_SIZE"
    using full by (rule length_concat_full)
  then have "length (concat chunks) = (length chunks - 1) * TRANSFER_SIZE + length (last chunks)"
    using ne by (simp add: concat_butlast_last)
  with total size have "(length chunks - 1) * TRANSFER_SIZE < 8193 * TRANSFER_SIZE"
    by linarith
  then have "length chunks - 1 \<le> 8192"
    by simp
  then have fit: "(length chunks - 1) * TRANSFER_SIZE \<le> OVERSIZE_LIMIT"
    by (simp only: limit_chunks)
  have run: "messagesIn_feed [] chunks = messagesIn_on_data (butlast chunks) (last chunks)"
    using ch fit by (rule feed_chunked)
  have "butlast chunks @ [last chunks] = chunks"
    using ne by (rule append_butlast_last_id)
  then have "concat (butlast chunks @ [last chunks]) = concat chunks"
    by (rule arg_cong)
  then have cc': "concat (butlast chunks @ [last chunks]) = le32 (length payload) @ le32 tag @ payload"
    by (simp only: cc)
  have r0: "readUInt32LE (le32 (length payload) @ le32 tag @ payload) 0 = Inr (length payload)"
    using read_le32 [OF len, of "[]" "le32 tag @ payload"] by simp
  have r4: "readUInt32LE (le32 (length payload) @ le32 tag @ payload) 4 = Inr tag"
    using read_le32 [OF tag, of "le32 (length payload)" payload] by (simp add: length_le32)
  have "messagesIn_on_data (butlast chunks) (last chunks) = ([], [Message tag payload], None)"
    unfolding messagesIn_on_data_def Let_def cc' using short
    by (simp add: r0 r4 slice_from_def length_le32)
  with run enc show ?thesis by simp
qed

theorem postMessage_roundtrip_witness:
  "(9 :: nat) < 2 ^ 32
   \<and> length (replicate 4088 (0 :: byte) @ [1, 2]) + 8 < 8193 * TRANSFER_SIZE
   \<and> chunked [[0xFA, 0x0F, 0, 0, 9, 0, 0, 0] @ replicate 4088 0, [1, 2]]
   \<and> postMessage_bytes 9 (Some (replicate 4088 0 @ [1, 2]))
       = Inr (concat [[0xFA, 0x0F, 0, 0, 9, 0, 0, 0] @ replicate 4088 0, [1, 2]])
   \<and> messagesIn_feed [] [[0xFA, 0x0F, 0, 0, 9, 0, 0, 0] @ replicate 4088 0, [1, 2]]
       = ([], [Message 9 (replicate 4088 0 @ [1, 2])], None)"
proof -
  define c0 :: buffer where "c0 = [0xFA, 0x0F, 0, 0, 9, 0, 0, 0] @ replicate 4088 0"
  define payload :: buffer where "payload = replicate 4088 0 @ [1, 2]"
  have len0: "length c0 = 4096"
    by (simp add: c0_def)
  have lenp: "length payload = 4090"
    by (simp add: payload_def)
  have h1: "(9 :: nat) < 2 ^ 32"
    by simp
  have h2: "length payload + 8 < 8193 * TRANSFER_SIZE"
    by (simp add: lenp TRANSFER_SIZE_def)
  have h3: "chunked [c0, [1, 2]]"
    by (simp add: len0 TRANSFER_SIZE_def)
  have hdr0: "writeUInt32LE 4090 = Inr [0xFA, 0x0F, 0, 0]"
    by (simp add: writeUInt32LE_def)
  have hdr4: "writeUInt32LE 9 = Inr [9, 0, 0, 0]"
    by (simp add: writeUInt32LE_def)
  have h4: "postMessage_bytes 9 (Some payload) = Inr (concat [c0, [1, 2]])"
    unfolding postMessage_bytes_def Let_def option.case lenp hdr0 hdr4
    by (simp add: c0_def payload_def)
  have "messagesIn_feed [] [c0, [1, 2]] = ([], [Message 9 payload], None)"
    using postMessage_roundtrip [OF h1 h2 h3 h4 [symmetric]] by (rule conjunct2)
  with h1 h2 h3 h4 show ?thesis
    unfolding c0_def payload_def by (intro conjI)
qed

text \<open>
  Claim C1 as stated fails for a large payload: the frame of tag 5 with 33558521 zero
  bytes of payload is encoded as the claim says, but on its 8193rd full chunk the decoder
  throws the oversize error and no \<open>message\<close> event is emitted. It also fails for a
  number that is not a 32-bit tag: writing the header raises and nothing is sent.
\<close>

theorem postMessage_roundtrip_counterexample:
  "postMessage_bytes 5 (Some (replicate 33558521 0)) = Inr (concat oversize_post_chunks)
   \<and> chunked oversize_post_chunks
   \<and> messagesIn_feed [] oversize_post_chunks
       = (butlast oversize_post_chunks, [],
          Some (Error ''Malformed message (oversize): f90f000205000000''))
   \<and> fst (snd (messagesIn_feed [] oversize_post_chunks)) = []
   \<and> postMessage_bytes 4294967296 (Some []) = Inl RangeError"
proof -
  define c0 :: buffer where "c0 = [0xF9, 0x0F, 0x00, 0x02, 5, 0, 0, 0] @ replicate 4088 0"
  have chunks: "oversize_post_chunks = c0 # replicate 8192 (replicate 4096 0) @ [[0]]"
    by (simp add: oversize_post_chunks_def c0_def)
  have len0: "length c0 = 4096"
    by (simp add: c0_def)
  have hex: "concat (map hex_byte (take 8 c0)) = ''f90f000205000000''"
    by (simp add: c0_def hex_byte_def hex_digit_def)
  have bl: "butlast (c0 # replicate 8192 (replicate 4096 0) @ [[0]])
            = c0 # replicate 8192 (replicate 4096 0)"
    by (simp add: butlast_append)
  have "replicate 4088 (0 :: byte) @ replicate (8192 * 4096) 0 @ replicate 1 0
        = replicate (4088 + (8192 * 4096 + 1)) 0"
    by (simp only: replicate_add)
  then have zeros: "replicate 4088 (0 :: byte) @ replicate (8192 * 4096) 0 @ [0]
        = replicate 33558521 0"
    by simp
  have "concat oversize_post_chunks
        = [0xF9, 0x0F, 0x00, 0x02, 5, 0, 0, 0]
          @ (replicate 4088 0 @ replicate (8192 * 4096) 0 @ [0])"
    unfolding chunks c0_def by (simp add: concat_replicate_replicate)
  then have cc: "concat oversize_post_chunks
        = [0xF9, 0x0F, 0x00, 0x02, 5, 0, 0, 0] @ replicate 33558521 0"
    by (simp only: zeros)
  have hdr0: "writeUInt32LE 33558521 = Inr [0xF9, 0x0F, 0x00, 0x02]"
    by (simp add: writeUInt32LE_def)
  have hdr4: "writeUInt32LE 5 = Inr [5, 0, 0, 0]"
    by (simp add: writeUInt32LE_def)
  have a: "postMessage_bytes 5 (Some (replicate 33558521 0)) = Inr (concat oversize_post_chunks)"
    unfolding postMessage_bytes_def Let_def option.case length_replicate hdr0 hdr4 cc
    by simp
  have b: "chunked oversize_post_chunks"
    unfolding chunks using len0 by (intro oversize_chunks_general(1)) simp_all
  have "messagesIn_feed [] (c0 # replicate 8192 (replicate 4096 0) @ [[0]])
         = (c0 # replicate 8192 (replicate 4096 0), [],
            Some (Error (''Malformed message (oversize): '' @ concat (map hex_byte (take 8 c0)))))"
    using len0 by (intro oversize_chunks_general(2)) simp_all
  then have c: "messagesIn_feed [] oversize_post_chunks
       = (butlast oversize_post_chunks, [],
          Some (Error ''Malformed message (oversize): f90f000205000000''))"
    by (simp only: chunks bl hex append.simps)
  from c have d: "fst (snd (messagesIn_feed [] oversize_post_chunks)) = []"
    by simp
  have e: "postMessage_bytes 4294967296 (Some []) = Inl RangeError"
    by (simp add: postMessage_bytes_def writeUInt32LE_def)
  from a b c d e show ?thesis
    by (intro conjI)
qed

text \<open>
  Claim C2 (as amended). For every chunk sequence in which every chunk but the last has
  exactly the maximum chunk size and the last is strictly shorter, with at most 8192
  full chunks, and whose concatenation is a valid frame or is empty: if the
  concatenation is empty no event is emitted; otherwise exactly one \<open>message\<close> event
  is emitted, whose tag is the LE32 at bytes 4-7 of the concatenation and whose payload
  is the concatenation without its first 8 bytes. The accumulation array is empty
  afterwards, and the run over any proper prefix of the sequence emits nothing.
\<close>

theorem messagesIn_reassembly:
  assumes "chunked chunks"
    and "(length chunks - 1) * TRANSFER_SIZE \<le> OVERSIZE_LIMIT"
    and "valid_frame (concat chunks) \<or> concat chunks = []"
  shows "messagesIn_feed [] chunks =
           (if concat chunks = [] then ([], [], None)
            else ([], [Message (unat (concat chunks ! 4) + 256 * unat (concat chunks ! 5)
                                + 65536 * unat (concat chunks ! 6)
                                + 16777216 * unat (concat chunks ! 7))
                         (drop 8 (concat chunks))], None))
         \<and> (\<forall>n < length chunks. messagesIn_feed [] (take n chunks) = (take n chunks, [], None))"
proof -
  have ne: "chunks \<noteq> []" and short: "length (last chunks) < TRANSFER_SIZE"
    using assms(1) by (simp_all add: chunked_iff)
  have "butlast chunks @ [last chunks] = chunks"
    using ne by (rule append_butlast_last_id)
  then have cc: "concat (butlast chunks @ [last chunks]) = concat chunks"
    by (rule arg_cong)
  have run: "messagesIn_feed [] chunks = messagesIn_on_data (butlast chunks) (last chunks)"
    using assms(1,2) by (rule feed_chunked)
  have final: "messagesIn_feed [] chunks =
           (if concat chunks = [] then ([], [], None)
            else ([], [Message (unat (concat chunks ! 4) + 256 * unat (concat chunks ! 5)
                                + 65536 * unat (concat chunks ! 6)
                                + 16777216 * unat (concat chunks ! 7))
                         (drop 8 (concat chunks))], None))"
  proof (cases "concat chunks = []")
    case True
    then have "concat (butlast chunks @ [last chunks]) = []"
      by (simp only: cc)
    with short have "messagesIn_on_data (butlast chunks) (last chunks) = ([], [], None)"
      by (rule on_data_short_empty)
    with run True show ?thesis by simp
  next
    case False
    with assms(3) have "valid_frame (concat chunks)"
      by blast
    then have "8 \<le> length (concat chunks)"
      unfolding valid_frame_def by (rule conjunct1)
    then have "8 \<le> length (concat (butlast chunks @ [last chunks]))"
      by (simp only: cc)
    with short have "messagesIn_on_data (butlast chunks) (last chunks) =
       ([], [Message (unat (concat (butlast chunks @ [last chunks]) ! 4)
                    + 256 * unat (concat (butlast chunks @ [last chunks]) ! 5)
                    + 65536 * unat (concat (butlast chunks @ [last chunks]) ! 6)
                    + 16777216 * unat (concat (butlast chunks @ [last chunks]) ! 7))
             (drop 8 (concat (butlast chunks @ [last chunks])))], None)"
      by (rule on_data_short_frame)
    with run False show ?thesis
      by (simp only: cc if_False)
  qed
  have "\<forall>n < length chunks. messagesIn_feed [] (take n chunks) = (take n chunks, [], None)"
    using assms(1,2) by (simp add: feed_before_short)
  with final show ?thesis by simp
qed

theorem messagesIn_reassembly_witness:
  "chunked [[0xFA, 0x0F, 0, 0, 9, 0, 0, 0] @ replicate 4088 0, [1, 2]]
   \<and> (length [[0xFA, 0x0F, 0, 0, 9, 0, 0, 0] @ replicate 4088 (0 :: byte), [1, 2]] - 1)
       * TRANSFER_SIZE \<le> OVERSIZE_LIMIT
   \<and> valid_frame (concat [[0xFA, 0x0F, 0, 0, 9, 0, 0, 0] @ replicate 4088 0, [1, 2]])
   \<and> messagesIn_feed [] [[0xFA, 0x0F, 0, 0, 9, 0, 0, 0] @ replicate 4088 0, [1, 2]]
       = ([], [Message 9 (replicate 4088 0 @ [1, 2])], None)
   \<and> messagesIn_feed [] [[0xFA, 0x0F, 0, 0, 9, 0, 0, 0] @ replicate 4088 0]
       = ([[0xFA, 0x0F, 0, 0, 9, 0, 0, 0] @ replicate 4088 0], [], None)
   \<and> messagesIn_feed [] [[]] = ([], [], None)"
proof -
  define c0 :: buffer where "c0 = [0xFA, 0x0F, 0, 0, 9, 0, 0, 0] @ replicate 4088 0"
  have len0: "length c0 = 4096"
    by (simp add: c0_def)
  have h1: "chunked [c0, [1, 2]]"
    by (simp add: len0 TRANSFER_SIZE_def)
  have h2: "(length [c0, [1, 2]] - 1) * TRANSFER_SIZE \<le> OVERSIZE_LIMIT"
    by (simp add: TRANSFER_SIZE_def OVERSIZE_LIMIT_def)
  have h3: "valid_frame (concat [c0, [1, 2]])"
    by (simp add: valid_frame_def len0 le32_def) (simp add: c0_def)
  have ne: "concat [c0, [1, 2]] \<noteq> []"
    by simp
  have nth: "concat [c0, [1, 2]] ! 4 = 9" "concat [c0, [1, 2]] ! 5 = 0"
    "concat [c0, [1, 2]] ! 6 = 0" "concat [c0, [1, 2]] ! 7 = 0"
    by (simp_all add: c0_def)
  have dr: "drop 8 (concat [c0, [1, 2]]) = replicate 4088 0 @ [1, 2]"
    by (simp add: c0_def)
  note inst = messagesIn_reassembly [OF h1 h2 disjI1, OF h3]
  have tagv: "unat (concat [c0, [1, 2]] ! 4) + 256 * unat (concat [c0, [1, 2]] ! 5)
      + 65536 * unat (concat [c0, [1, 2]] ! 6) + 16777216 * unat (concat [c0, [1, 2]] ! 7) = 9"
    by (simp only: nth) simp
  have a: "messagesIn_feed [] [c0, [1, 2]] = ([], [Message 9 (replicate 4088 0 @ [1, 2])], None)"
    using inst [THEN conjunct1] by (simp only: ne if_False tagv dr)
  have one: "1 < length [c0, [1, 2 :: byte]]" "take 1 [c0, [1, 2 :: byte]] = [c0]"
    by simp_all
  have b: "messagesIn_feed [] [c0] = ([c0], [], None)"
    using inst [THEN conjunct2, rule_format, OF one(1)] by (simp only: one(2))
  have e1: "chunked [[]]"
    by (simp add: TRANSFER_SIZE_def)
  have e2: "(length [[] :: buffer] - 1) * TRANSFER_SIZE \<le> OVERSIZE_LIMIT"
    by simp
  have e3: "concat [[] :: buffer] = []"
    by simp
  have c: "messagesIn_feed [] [[]] = ([], [], None)"
    using messagesIn_reassembly [OF e1 e2 disjI2, OF e3, THEN conjunct1]
    by (simp only: e3 refl if_True)
  from h1 h2 h3 a b c show ?thesis
    unfolding c0_def by (intro conjI)
qed

text \<open>
  Claim C2 as stated fails for a valid frame of more than 8192 full chunks: on the
  8193rd full chunk the decoder throws the oversize error, before the short chunk
  arrives, and no \<open>message\<close> event is emitted.
\<close>

theorem messagesIn_reassembly_counterexample:
  "chunked oversize_frame_chunks
   \<and> valid_frame (concat oversize_frame_chunks)
   \<and> messagesIn_feed [] oversize_frame_chunks
       = (butlast oversize_frame_chunks, [],
          Some (Error ''Malformed message (oversize): f80f000200000000''))
   \<and> fst (snd (messagesIn_feed [] oversize_frame_chunks)) = []"
proof -
  define c0 :: buffer where "c0 = [0xF8, 0x0F, 0x00, 0x02, 0, 0, 0, 0] @ replicate 4088 0"
  have chunks: "oversize_frame_chunks = c0 # replicate 8192 (replicate 4096 0) @ [[]]"
    by (simp add: oversize_frame_chunks_def c0_def)
  have len0: "length c0 = 4096"
    by (simp add: c0_def)
  have hex: "concat (map hex_byte (take 8 c0)) = ''f80f000200000000''"
    by (simp add: c0_def hex_byte_def hex_digit_def)
  have bl: "butlast (c0 # replicate 8192 (replicate 4096 0) @ [[]])
            = c0 # replicate 8192 (replicate 4096 0)"
    by (simp add: butlast_append)
  have a: "chunked oversize_frame_chunks"
    unfolding chunks using len0 by (intro oversize_chunks_general(1)) simp_all
  have total: "length (concat oversize_frame_chunks) = 33558528"
    by (simp add: chunks len0 concat_replicate_replicate)
  have tk: "take 4 (concat oversize_frame_chunks) = [0xF8, 0x0F, 0x00, 0x02]"
    by (simp add: chunks c0_def)
  have b: "valid_frame (concat oversize_frame_chunks)"
    unfolding valid_frame_def total tk by (simp add: le32_def)
  have "messagesIn_feed [] (c0 # replicate 8192 (replicate 4096 0) @ [[]])
         = (c0 # replicate 8192 (replicate 4096 0), [],
            Some (Error (''Malformed message (oversize): '' @ concat (map hex_byte (take 8 c0)))))"
    using len0 by (intro oversize_chunks_general(2)) simp_all
  then have c: "messagesIn_feed [] oversize_frame_chunks
       = (butlast oversize_frame_chunks, [],
          Some (Error ''Malformed message (oversize): f80f000200000000''))"
    by (simp only: chunks bl hex append.simps)
  from c have d: "fst (snd (messagesIn_feed [] oversize_frame_chunks)) = []"
    by simp
  from a b c d show ?thesis
    by (intro conjI)
qed

text \<open>
  Claim C3. When every chunk has exactly the maximum chunk size, so that no short chunk
  ends the message, the decoder emits nothing while the accumulated size is within
  32 MiB, and at the first chunk that takes it beyond 32 MiB (the 8193rd) it throws the
  oversize error, whose message carries the first 8 bytes of the first chunk in
  hexadecimal. No \<open>message\<close> event is emitted for that data.
\<close>

theorem messagesIn_oversize_raises:
  assumes "\<forall>c \<in> set chunks. length c = TRANSFER_SIZE"
    and "OVERSIZE_LIMIT < length chunks * TRANSFER_SIZE"
  shows "messagesIn_feed [] chunks =
           (take (OVERSIZE_LIMIT div TRANSFER_SIZE + 1) chunks, [],
            Some (Error (''Malformed message (oversize): ''
                         @ concat (map hex_byte (take 8 (hd chunks))))))
         \<and> (\<forall>n. n * TRANSFER_SIZE \<le> OVERSIZE_LIMIT \<longrightarrow>
               messagesIn_feed [] (take n chunks) = (take n chunks, [], None))"
proof -
  have "OVERSIZE_LIMIT div TRANSFER_SIZE + 1 = 8193"
    by (simp add: TRANSFER_SIZE_def OVERSIZE_LIMIT_def)
  moreover have "toString_hex (hd chunks) 0 8 = concat (map hex_byte (take 8 (hd chunks)))"
    by (simp add: toString_hex_def slice_buf_def)
  moreover have "messagesIn_feed [] (chunks @ []) =
     (take 8193 chunks, [],
      Some (Error (''Malformed message (oversize): '' @ toString_hex (hd chunks) 0 8)))"
    using assms by (rule feed_oversize)
  ultimately have first: "messagesIn_feed [] chunks =
           (take (OVERSIZE_LIMIT div TRANSFER_SIZE + 1) chunks, [],
            Some (Error (''Malformed message (oversize): ''
                         @ concat (map hex_byte (take 8 (hd chunks))))))"
    by simp
  have "\<forall>n. n * TRANSFER_SIZE \<le> OVERSIZE_LIMIT \<longrightarrow>
               messagesIn_feed [] (take n chunks) = (take n chunks, [], None)"
    using assms(1) by (simp add: limit_chunks feed_full_prefix)
  with first show ?thesis by simp
qed

lemma replicate_8: "replicate 8 x = [x, x, x, x, x, x, x, x]"
  by (simp add: numeral_eq_Suc)

theorem messagesIn_oversize_raises_witness:
  "list_all (\<lambda>c. length c = TRANSFER_SIZE) (replicate 8193 (replicate 4096 (0x5a :: byte)))
   \<and> OVERSIZE_LIMIT < length (replicate 8193 (replicate 4096 (0x5a :: byte))) * TRANSFER_SIZE
   \<and> messagesIn_feed [] (replicate 8193 (replicate 4096 0x5a)) =
        (replicate 8193 (replicate 4096 0x5a), [],
         Some (Error ''Malformed message (oversize): 5a5a5a5a5a5a5a5a''))
   \<and> messagesIn_feed [] (take 8192 (replicate 8193 (replicate 4096 0x5a))) =
        (replicate 8192 (replicate 4096 0x5a), [], None)"
proof -
  have h1: "\<forall>c \<in> set (replicate 8193 (replicate 4096 (0x5a :: byte))). length c = TRANSFER_SIZE"
    by (simp add: TRANSFER_SIZE_def)
  have h2: "OVERSIZE_LIMIT < length (replicate 8193 (replicate 4096 (0x5a :: byte))) * TRANSFER_SIZE"
    by (simp add: TRANSFER_SIZE_def OVERSIZE_LIMIT_def)
  have hex: "concat (map hex_byte (take 8 (replicate 4096 (0x5a :: byte)))) = ''5a5a5a5a5a5a5a5a''"
    by (simp add: replicate_8 hex_byte_def hex_digit_def)
  have lim: "OVERSIZE_LIMIT div TRANSFER_SIZE + 1 = 8193" "8192 * TRANSFER_SIZE \<le> OVERSIZE_LIMIT"
    by (simp_all add: TRANSFER_SIZE_def OVERSIZE_LIMIT_def)
  have tk: "take 8193 (replicate 8193 (replicate 4096 (0x5a :: byte)))
              = replicate 8193 (replicate 4096 0x5a)"
    "take 8192 (replicate 8193 (replicate 4096 (0x5a :: byte)))
              = replicate 8192 (replicate 4096 0x5a)"
    "hd (replicate 8193 (replicate 4096 (0x5a :: byte))) = replicate 4096 0x5a"
    by simp_all
  note inst = messagesIn_oversize_raises [OF h1 h2]
  have a: "messagesIn_feed [] (replicate 8193 (replicate 4096 0x5a)) =
        (replicate 8193 (replicate 4096 0x5a), [],
         Some (Error ''Malformed message (oversize): 5a5a5a5a5a5a5a5a''))"
    using inst [THEN conjunct1] by (simp only: lim tk hex append.simps)
  have b: "messagesIn_feed [] (take 8192 (replicate 8193 (replicate 4096 0x5a))) =
        (replicate 8192 (replicate 4096 0x5a), [], None)"
    using inst [THEN conjunct2, rule_format, OF lim(2)] by (simp only: tk)
  have h1': "list_all (\<lambda>c. length c = TRANSFER_SIZE) (replicate 8193 (replicate 4096 (0x5a :: byte)))"
    using h1 by (simp only: list_all_iff)
  from h1' h2 a b show ?thesis
    by (intro conjI)
qed

text \<open>
  Claim C9. The branch that discards silently is taken only when the concatenation is
  empty. When the short chunk leaves between 1 and 7 bytes accumulated, one of the two
  header reads lies past the end of the buffer and raises: the handler throws, emits no
  event, and does not clear the accumulated chunks.
\<close>

theorem messagesIn_sub_header_raises:
  assumes "length data < TRANSFER_SIZE"
    and "length (concat (buffers @ [data])) \<le> 7"
  shows "messagesIn_on_data buffers data =
           (if length (concat (buffers @ [data])) = 0 then ([], [], None)
            else (buffers @ [data], [], Some RangeError))"
proof (cases "length (concat (buffers @ [data])) = 0")
  case True
  then show ?thesis
    using assms(1) unfolding messagesIn_on_data_def Let_def by simp
next
  case False
  then have "1 \<le> length (concat (buffers @ [data]))"
    by linarith
  with assms have "messagesIn_on_data buffers data = (buffers @ [data], [], Some RangeError)"
    by (intro on_data_short_header)
  with False show ?thesis by simp
qed

theorem messagesIn_sub_header_raises_witness:
  "length [1, 2, 3, 4, 5 :: byte] < TRANSFER_SIZE
   \<and> length (concat ([] @ [[1, 2, 3, 4, 5 :: byte]])) \<le> 7
   \<and> messagesIn_on_data [] [1, 2, 3, 4, 5] = ([[1, 2, 3, 4, 5]], [], Some RangeError)
   \<and> messagesIn_on_data [] [] = ([], [], None)"
  using messagesIn_sub_header_raises [of "[1, 2, 3, 4, 5]" "[]"]
    messagesIn_sub_header_raises [of "[]" "[]"]
  by (simp add: TRANSFER_SIZE_def)

text \<open>
  Claim C10. The declared length (bytes 0-3) is read and never used. For a reassembled
  buffer of at least 8 bytes the handler emits one \<open>message\<close> event whose tag is the
  little-endian value of bytes 4-7 and whose payload is the buffer without its first
  8 bytes, whatever bytes 0-3 hold: two reassembled buffers that agree from byte 4 on
  give the same event.
\<close>

theorem messagesIn_ignores_declared_length:
  assumes "length data < TRANSFER_SIZE"
    and "length data' < TRANSFER_SIZE"
    and "8 \<le> length (concat (buffers @ [data]))"
    and "drop 4 (concat (buffers' @ [data'])) = drop 4 (concat (buffers @ [data]))"
  shows "messagesIn_on_data buffers data =
           ([], [Message (unat (concat (buffers @ [data]) ! 4)
                          + 256 * unat (concat (buffers @ [data]) ! 5)
                          + 65536 * unat (concat (buffers @ [data]) ! 6)
                          + 16777216 * unat (concat (buffers @ [data]) ! 7))
                   (drop 8 (concat (buffers @ [data])))], None)
         \<and> messagesIn_on_data buffers' data' = messagesIn_on_data buffers data"
proof -
  define b where "b = concat (buffers @ [data])"
  define b' where "b' = concat (buffers' @ [data'])"
  have eq: "drop 4 b' = drop 4 b"
    using assms(4) by (simp only: b_def b'_def)
  have len: "8 \<le> length b"
    using assms(3) by (simp only: b_def)
  have "length (drop 4 b') = length (drop 4 b)"
    using eq by simp
  then have len': "8 \<le> length b'"
    using len by simp
  have nth: "b' ! (4 + k) = b ! (4 + k)" for k
  proof -
    have "drop 4 b' ! k = drop 4 b ! k"
      using eq by simp
    moreover have "drop 4 b' ! k = b' ! (4 + k)"
      using len' by (intro nth_drop) simp
    moreover have "drop 4 b ! k = b ! (4 + k)"
      using len by (intro nth_drop) simp
    ultimately show ?thesis by simp
  qed
  have n4: "b' ! 4 = b ! 4" using nth [of 0] by simp
  have n5: "b' ! 5 = b ! 5" using nth [of 1] by simp
  have n6: "b' ! 6 = b ! 6" using nth [of 2] by simp
  have n7: "b' ! 7 = b ! 7" using nth [of 3] by simp
  have "drop 4 (drop 4 b') = drop 4 (drop 4 b)"
    using eq by simp
  then have d8: "drop 8 b' = drop 8 b"
    by simp
  have one: "messagesIn_on_data buffers data =
           ([], [Message (unat (b ! 4) + 256 * unat (b ! 5)
                          + 65536 * unat (b ! 6) + 16777216 * unat (b ! 7))
                   (drop 8 b)], None)"
    unfolding b_def using assms(1,3) by (rule on_data_short_frame)
  have "8 \<le> length (concat (buffers' @ [data']))"
    using len' by (simp only: b'_def)
  with assms(2) have "messagesIn_on_data buffers' data' =
           ([], [Message (unat (b' ! 4) + 256 * unat (b' ! 5)
                          + 65536 * unat (b' ! 6) + 16777216 * unat (b' ! 7))
                   (drop 8 b')], None)"
    unfolding b'_def by (rule on_data_short_frame)
  with one n4 n5 n6 n7 d8 have "messagesIn_on_data buffers' data' = messagesIn_on_data buffers data"
    by simp
  with one show ?thesis
    unfolding b_def by simp
qed

theorem messagesIn_ignores_declared_length_witness:
  "length [9, 0, 0, 0, 5, 0, 0, 0, 7, 7 :: byte] < TRANSFER_SIZE
   \<and> length [2, 0, 0, 0, 5, 0, 0, 0, 7, 7 :: byte] < TRANSFER_SIZE
   \<and> 8 \<le> length (concat ([] @ [[9, 0, 0, 0, 5, 0, 0, 0, 7, 7 :: byte]]))
   \<and> drop 4 (concat ([] @ [[2, 0, 0, 0, 5, 0, 0, 0, 7, 7 :: byte]]))
       = drop 4 (concat ([] @ [[9, 0, 0, 0, 5, 0, 0, 0, 7, 7]]))
   \<and> readUInt32LE [9, 0, 0, 0, 5, 0, 0, 0, 7, 7] 0 = Inr 9
   \<and> messagesIn_on_data [] [9, 0, 0, 0, 5, 0, 0, 0, 7, 7] = ([], [Message 5 [7, 7]], None)
   \<and> messagesIn_on_data [] [2, 0, 0, 0, 5, 0, 0, 0, 7, 7] = ([], [Message 5 [7, 7]], None)"
  using messagesIn_ignores_declared_length
    [of "[9, 0, 0, 0, 5, 0, 0, 0, 7, 7]" "[2, 0, 0, 0, 5, 0, 0, 0, 7, 7]" "[]" "[]"]
  by (simp add: TRANSFER_SIZE_def readUInt32LE_def)

section \<open>The log decoder\<close>

lemma log_chunk_starts_with_STX: "log_chunk records = [] \<or> hd (log_chunk records) = 1"
  by (cases records) auto

lemma scanSTX_stop:
  assumes "i < length data \<Longrightarrow> data ! i = 1"
  shows "scanSTX data i = i"
  using assms by (subst scanSTX.simps) simp

lemma scanSTX_skip:
  assumes "i < length data" and "data ! i \<noteq> 1"
  shows "scanSTX data i = scanSTX data (i + 1)"
  using assms by (subst scanSTX.simps) simp

lemma scanSTX_text:
  assumes "1 \<notin> set msg" and "rest = [] \<or> hd rest = 1"
  shows "scanSTX (pre @ msg @ rest) (length pre) = length pre + length msg"
  using assms(1)
proof (induction msg arbitrary: pre)
  case Nil
  have "(pre @ rest) ! length pre = 1" if "length pre < length (pre @ rest)"
  proof -
    from that have "rest \<noteq> []" by auto
    with assms(2) show ?thesis
      by (simp add: nth_append hd_conv_nth)
  qed
  then have "scanSTX (pre @ rest) (length pre) = length pre"
    by (rule scanSTX_stop)
  then show ?case by simp
next
  case (Cons x msg)
  have ne: "(pre @ (x # msg) @ rest) ! length pre \<noteq> 1"
    using Cons.prems by (simp add: nth_append)
  have "scanSTX (pre @ (x # msg) @ rest) (length pre)
        = scanSTX (pre @ (x # msg) @ rest) (length pre + 1)"
    using ne by (intro scanSTX_skip) simp_all
  also have "\<dots> = scanSTX ((pre @ [x]) @ msg @ rest) (length (pre @ [x]))"
    by simp
  also have "\<dots> = length (pre @ [x]) + length msg"
    using Cons.prems by (intro Cons.IH) simp
  finally show ?case by simp
qed

lemma log_loop_end: "length data \<le> pos \<Longrightarrow> log_loop dec data pos = ([], None)"
  by (subst log_loop.simps) simp

lemma log_loop_bad:
  assumes "pos < length data" and "data ! pos \<noteq> 1"
  shows "log_loop dec data pos =
     ([], Some (Error (''Expected STX at '' @ string_of_nat pos @ '', got ''
                       @ string_of_nat (unat (data ! pos)) @ ''instead'')))"
  using assms by (subst log_loop.simps) simp

lemma log_loop_record:
  assumes "pos < length data" and "data ! pos = 1"
  shows "log_loop dec data pos =
     (case log_loop dec data (scanSTX data (pos + 2)) of
        (evs, r) \<Rightarrow>
          (Debug (dec (slice_buf data (pos + 2) (scanSTX data (pos + 2)))) (index data (pos + 1))
           # evs, r))"
  using assms by (subst log_loop.simps) (simp add: Let_def toString_utf8_def)

lemma log_loop_records:
  assumes "\<forall>(level, msg) \<in> set records. 1 \<notin> set msg"
  shows "log_loop dec (pre @ log_chunk records) (length pre)
         = (map (\<lambda>(level, msg). Debug (dec msg) (Some level)) records, None)"
  using assms
proof (induction records arbitrary: pre)
  case Nil
  then show ?case by (simp add: log_loop_end)
next
  case (Cons entry records)
  obtain level msg where entry: "entry = (level, msg)"
    by (cases entry)
  define data where "data = pre @ log_chunk (entry # records)"
  define pos where "pos = length pre"
  have data: "data = (pre @ [1, level]) @ msg @ log_chunk records"
    by (simp add: data_def entry)
  have clean: "1 \<notin> set msg"
    using Cons.prems entry by simp
  have here: "pos < length data" "data ! pos = 1"
    by (simp_all add: data pos_def nth_append)
  have level: "index data (pos + 1) = Some level"
    by (simp add: data pos_def index_def nth_append)
  have "scanSTX data (length (pre @ [1, level])) = length (pre @ [1, level]) + length msg"
    unfolding data using clean log_chunk_starts_with_STX by (rule scanSTX_text)
  then have scan: "scanSTX data (pos + 2) = pos + 2 + length msg"
    by (simp add: pos_def)
  have msg: "slice_buf data (pos + 2) (pos + 2 + length msg) = msg"
    by (simp add: data pos_def slice_buf_def)
  have "log_loop dec ((pre @ 1 # level # msg) @ log_chunk records) (length (pre @ 1 # level # msg))
        = (map (\<lambda>(level, msg). Debug (dec msg) (Some level)) records, None)"
    using Cons.prems by (intro Cons.IH) simp
  then have rest: "log_loop dec data (pos + 2 + length msg)
        = (map (\<lambda>(level, msg). Debug (dec msg) (Some level)) records, None)"
    by (simp add: data pos_def)
  have "log_loop dec data pos
        = (case log_loop dec data (scanSTX data (pos + 2)) of
             (evs, r) \<Rightarrow>
               (Debug (dec (slice_buf data (pos + 2) (scanSTX data (pos + 2))))
                  (index data (pos + 1)) # evs, r))"
    using here by (rule log_loop_record)
  also have "\<dots> = (Debug (dec msg) (Some level)
           # map (\<lambda>(level, msg). Debug (dec msg) (Some level)) records, None)"
    by (simp only: scan msg level rest prod.case)
  finally have "log_loop dec data pos
        = (Debug (dec msg) (Some level)
           # map (\<lambda>(level, msg). Debug (dec msg) (Some level)) records, None)" .
  then show ?case
    by (simp add: data_def pos_def entry)
qed

text \<open>
  Claim C4. For every well-formed log chunk \<open>STX level1 text1 STX level2 text2 ...\<close> in
  which no text contains the byte STX, decoding the chunk emits one \<open>debug\<close> event per
  record, in record order, each with the record's severity byte and the UTF-8 decoding
  of exactly the bytes of its text, and does not throw.
\<close>

theorem log_decodes_records:
  assumes "\<forall>(level, msg) \<in> set records. 1 \<notin> set msg"
  shows "log_on_data dec (log_chunk records)
         = (map (\<lambda>(level, msg). Debug (dec msg) (Some level)) records, None)"
proof -
  have "log_loop dec ([] @ log_chunk records) (length ([] :: buffer))
         = (map (\<lambda>(level, msg). Debug (dec msg) (Some level)) records, None)"
    using assms by (rule log_loop_records)
  then show ?thesis
    by (simp add: log_on_data_def)
qed

theorem log_decodes_records_witness:
  "list_all (\<lambda>(level, msg). 1 \<notin> set msg)
     [(2 :: byte, [72, 105 :: byte]), (1, []), (3, [111, 107])]
   \<and> log_chunk [(2, [72, 105]), (1, []), (3, [111, 107])]
       = [1, 2, 72, 105, 1, 1, 1, 3, 111, 107]
   \<and> log_on_data (\<lambda>b. b) [1, 2, 72, 105, 1, 1, 1, 3, 111, 107]
       = ([Debug [72, 105] (Some 2), Debug [] (Some 1), Debug [111, 107] (Some 3)], None)"
  using log_decodes_records [of "[(2, [72, 105]), (1, []), (3, [111, 107])]" "\<lambda>b. b"]
  by simp

text \<open>
  Claim C5. For every non-empty log chunk whose first byte is not STX, decoding throws
  the framing error at position 0, naming the byte found there, and emits no \<open>debug\<close>
  event.
\<close>

theorem log_rejects_missing_STX:
  assumes "data \<noteq> []" and "hd data \<noteq> 1"
  shows "log_on_data dec data
         = ([], Some (Error (''Expected STX at 0, got '' @ string_of_nat (unat (hd data))
                             @ ''instead'')))"
proof -
  have "0 < length data" and "data ! 0 \<noteq> 1"
    using assms by (simp_all add: hd_conv_nth)
  then have "log_loop dec data 0 =
     ([], Some (Error (''Expected STX at '' @ string_of_nat 0 @ '', got ''
                       @ string_of_nat (unat (data ! 0)) @ ''instead'')))"
    by (rule log_loop_bad)
  moreover have "string_of_nat 0 = ''0''"
    by (subst string_of_nat.simps) simp
  moreover have "data ! 0 = hd data"
    using assms(1) by (simp add: hd_conv_nth)
  ultimately show ?thesis
    by (simp add: log_on_data_def)
qed

theorem log_rejects_missing_STX_witness:
  "[65, 1, 2, 72 :: byte] \<noteq> []
   \<and> hd [65, 1, 2, 72 :: byte] \<noteq> 1
   \<and> log_on_data (\<lambda>b. b) [65, 1, 2, 72]
       = ([], Some (Error ''Expected STX at 0, got 65instead''))"
proof -
  have h1: "[65, 1, 2, 72 :: byte] \<noteq> []" and h2: "hd [65, 1, 2, 72 :: byte] \<noteq> 1"
    by simp_all
  have "string_of_nat 65 = ''65''"
    by (subst string_of_nat.simps, subst string_of_nat.simps) simp
  then have "log_on_data (\<lambda>b. b) [65, 1, 2, 72]
       = ([], Some (Error ''Expected STX at 0, got 65instead''))"
    using log_rejects_missing_STX [OF h1 h2, of "\<lambda>b. b"] by simp
  with h1 h2 show ?thesis
    by (intro conjI)
qed

section \<open>Device discovery\<close>

lemma uint_eq_numeral_iff: "(uint (x :: 'a::len word) = numeral k) = (unat x = numeral k)"
proof -
  have "(numeral k :: int) = int (numeral k)"
    by simp
  then have "(int (unat x) = numeral k) = (int (unat x) = int (numeral k))"
    by (rule arg_cong)
  also have "\<dots> = (unat x = numeral k)"
    by (rule of_nat_eq_iff)
  finally show ?thesis
    by (simp only: uint_nat)
qed

lemma js_shr_u16: "js_shr (uint (w :: 16 word)) 8 = uint w div 256"
proof -
  have lt: "uint w < 2 ^ 16" using uint_bounded [of w] by simp
  have ge: "0 \<le> uint w" by simp
  define x :: "32 word" where "x = word_of_int (uint w)"
  have ux: "uint x = uint w"
    unfolding x_def by (simp add: uint_up_ucast is_up)
  have "sint x = signed_take_bit 31 (uint x)"
    by (simp add: sint_uint)
  also have "\<dots> = uint w"
  proof -
    have "- (2 ^ 31) \<le> (0 :: int)"
      by simp
    also have "0 \<le> uint w"
      by simp
    finally have "- (2 ^ 31) \<le> uint w" .
    moreover have "uint w < 2 ^ 31"
      using lt by simp
    ultimately show ?thesis
      unfolding ux by (rule signed_take_bit_int_eq_self)
  qed
  finally have sx: "sint x = uint w" .
  have "sint (signed_drop_bit 8 x) = drop_bit 8 (sint x)"
    by (rule sint_signed_drop_bit_eq)
  also have "\<dots> = uint w div 256"
    unfolding sx by (simp add: drop_bit_eq_div)
  finally show ?thesis
    by (simp only: js_shr_def x_def)
qed

lemma getDevices_filter: "getDevices ds = filter tessel_candidate ds"
proof -
  have "(uint (idVendor (deviceDescriptor d)) = TESSEL_VID
        \<and> uint (idProduct (deviceDescriptor d)) = TESSEL_PID
        \<and> js_shr (uint (bcdDevice (deviceDescriptor d))) 8 \<noteq> 0) = tessel_candidate d"
    for d :: "'a device_scheme"
  proof -
    have v: "(uint (idVendor (deviceDescriptor d)) = 0x1d50) = (unat (idVendor (deviceDescriptor d)) = 0x1D50)"
      by (rule uint_eq_numeral_iff)
    have p: "(uint (idProduct (deviceDescriptor d)) = 0x6097) = (unat (idProduct (deviceDescriptor d)) = 0x6097)"
      by (rule uint_eq_numeral_iff)
    have "uint (bcdDevice (deviceDescriptor d)) div 256 = int (unat (bcdDevice (deviceDescriptor d)) div 256)"
      unfolding uint_nat by (simp add: zdiv_int)
    then have b: "(js_shr (uint (bcdDevice (deviceDescriptor d))) 8 \<noteq> 0)
        = (unat (bcdDevice (deviceDescriptor d)) div 256 \<noteq> 0)"
      by (simp only: js_shr_u16 of_nat_eq_0_iff)
    show ?thesis
      unfolding tessel_candidate_def TESSEL_VID_def TESSEL_PID_def
      by (simp only: v p b)
  qed
  then show ?thesis
    unfolding getDevices_def by simp
qed

lemma getFirstDevice_single:
  "tessel_candidate d \<Longrightarrow> getFirstDevice [d] = Inr d"
  by (simp add: getFirstDevice_def getDevices_filter)

text \<open>
  Claim C7. \<open>getDevices\<close> returns exactly the attached devices, in enumeration order,
  whose descriptor has vendor id 0x1D50, product id 0x6097 and a firmware version with a
  nonzero high byte; it returns a list in every case. \<open>getFirstDevice\<close> returns the
  first element of that list, and throws \<open>No Tessel devices found\<close> if and only if the
  list is empty.
\<close>

theorem device_enumeration:
  "getDevices ds = filter tessel_candidate ds
   \<and> getFirstDevice ds =
       (case filter tessel_candidate ds of
          [] \<Rightarrow> Inl (Error ''No Tessel devices found'')
        | d # _ \<Rightarrow> Inr d)
   \<and> ((\<exists>e. getFirstDevice ds = Inl e) \<longleftrightarrow> getDevices ds = [])"
proof -
  have first: "getFirstDevice ds =
       (case getDevices ds of
          [] \<Rightarrow> Inl (Error ''No Tessel devices found'')
        | d # _ \<Rightarrow> Inr d)"
    unfolding getFirstDevice_def Let_def by (cases "getDevices ds") simp_all
  then have "(\<exists>e. getFirstDevice ds = Inl e) \<longleftrightarrow> getDevices ds = []"
    by (cases "getDevices ds") simp_all
  with first show ?thesis
    by (simp add: getDevices_filter)
qed

section \<open>Session set-up and shutdown\<close>

lemma executor_busy:
  "message_is e ''LIBUSB_ERROR_BUSY'' \<Longrightarrow>
   getDeviceInterface_executor (Some e) = Rejected (Error ''Device is in use by another process'')"
  by (simp add: getDeviceInterface_executor_def reject_def)

lemma executor_other:
  "\<not> message_is e ''LIBUSB_ERROR_BUSY'' \<Longrightarrow> getDeviceInterface_executor (Some e) = Rejected e"
  by (simp add: getDeviceInterface_executor_def reject_def)

lemma settled_stays:
  "getDeviceInterface_executor claim = Rejected e \<Longrightarrow>
   getDeviceInterface claim alt_cb ep = Rejected e"
  by (cases alt_cb)
     (auto simp: getDeviceInterface_def setAltSetting_callback_def Let_def reject_def resolve_def
        split: option.splits)

lemma init_claim_failed:
  assumes dev: "getFirstDevice (deviceList env) = Inr dev"
    and op: "open_throws env = None"
    and ex: "getDeviceInterface_executor (claim_throws env) = Rejected e"
  shows "init env = Rejected e"
proof -
  have iface: "getDeviceInterface (claim_throws env) (setAlt_cb env) (initEndpoints_throws env)
      = Rejected e"
    using ex by (rule settled_stays)
  have "promise_all2 True (getDeviceSerial (serial_cb env)) (Rejected e :: unit promise) = Rejected e"
    by (cases "getDeviceSerial (serial_cb env)") (simp_all add: promise_all2_def)
  then show ?thesis
    unfolding init_def Let_def using dev op ex iface
    by (simp add: then_value_def resolve_with_def)
qed

lemma busy_env_fields:
  "init_fields busy_env
   = \<lparr>t_device = Some \<lparr>isOpen = True\<rparr>, t_interface = Some \<lparr>claimed = False\<rparr>\<rparr>"
proof -
  have "tessel_candidate
     \<lparr>deviceDescriptor = \<lparr>idVendor = 0x1D50, idProduct = 0x6097, bcdDevice = 0x0100\<rparr>\<rparr>"
    by (simp add: tessel_candidate_def)
  then have "getFirstDevice (deviceList busy_env)
     = Inr \<lparr>deviceDescriptor = \<lparr>idVendor = 0x1D50, idProduct = 0x6097, bcdDevice = 0x0100\<rparr>\<rparr>"
    unfolding busy_env_def by (simp add: getFirstDevice_single)
  then show ?thesis
    unfolding init_fields_def by (simp add: busy_env_def)
qed

text \<open>
  Claim C6 (as amended). If the transport holds no interface object (\<open>init\<close> did not
  get as far as \<open>device.interface(0)\<close>, or an earlier \<open>close\<close> completed), the promise
  of \<open>close\<close> is resolved inside the call, no library call is made and the state is
  unchanged, whatever the library would do. Otherwise, also when the claim of the
  interface had failed, and provided that \<open>release\<close> returns and calls its callback and
  that \<open>_device.close()\<close>, if there is a device, does not throw: \<open>close\<close> requests the
  release of the interface, closes the device handle if there is one, unsets
  \<open>_interface\<close> and resolves, even when the release reports an error to its callback.
  In both cases no exception escapes, \<open>_interface\<close> is unset afterwards, and a further
  \<open>close\<close> resolves at once without calling the library or changing the state:
  \<open>close\<close> is idempotent.
\<close>

theorem close_never_fails:
  "(t_interface t = None \<longrightarrow>
      close_executor (release_outcome env) t = (Resolved (), [])
      \<and> close env t = (t, Resolved (), [], None))
   \<and> (\<forall>i err. t_interface t = Some i \<and> release_outcome env = ReleaseCallback err
          \<and> (t_device t = None \<or> device_close_throws env = None) \<longrightarrow>
        close_executor (release_outcome env) t = (Pending, [InterfaceRelease True])
        \<and> close env t =
            (t\<lparr>t_device := map_option (\<lambda>d. d\<lparr>isOpen := False\<rparr>) (t_device t),
               t_interface := None\<rparr>,
             Resolved (),
             InterfaceRelease True # (case t_device t of None \<Rightarrow> [] | Some _ \<Rightarrow> [DeviceClose]),
             None))
   \<and> (t_interface t = None
        \<or> (\<exists>err. release_outcome env = ReleaseCallback err)
           \<and> (t_device t = None \<or> device_close_throws env = None) \<longrightarrow>
        (case close env t of
           (t', p, calls, escaped) \<Rightarrow>
             p = Resolved () \<and> escaped = None \<and> t_interface t' = None
             \<and> close env_next t' = (t', Resolved (), [], None)))"
proof -
  have unset: "close_executor rel u = (Resolved (), []) \<and> close e u = (u, Resolved (), [], None)"
    if "t_interface u = None" for rel e u
    using that by (simp add: close_def close_executor_def resolve_def reject_def)
  have held: "close_executor (release_outcome env) t = (Pending, [InterfaceRelease True])
        \<and> close env t =
            (t\<lparr>t_device := map_option (\<lambda>d. d\<lparr>isOpen := False\<rparr>) (t_device t),
               t_interface := None\<rparr>,
             Resolved (),
             InterfaceRelease True # (case t_device t of None \<Rightarrow> [] | Some _ \<Rightarrow> [DeviceClose]),
             None)"
    if "t_interface t = Some i" and "release_outcome env = ReleaseCallback err"
      and "t_device t = None \<or> device_close_throws env = None" for i err
    using that
    by (cases "t_device t")
       (auto simp: close_def close_executor_def close_release_callback_def resolve_def)
  have after: "(case close env t of
           (t', p, calls, escaped) \<Rightarrow>
             p = Resolved () \<and> escaped = None \<and> t_interface t' = None
             \<and> close env_next t' = (t', Resolved (), [], None))"
    if "t_interface t = None
        \<or> (\<exists>err. release_outcome env = ReleaseCallback err)
           \<and> (t_device t = None \<or> device_close_throws env = None)"
  proof (cases "t_interface t")
    case None
    then show ?thesis
      using unset [of t] by simp
  next
    case (Some i)
    with that obtain err where "release_outcome env = ReleaseCallback err"
      and "t_device t = None \<or> device_close_throws env = None"
      by auto
    with Some have "close env t =
            (t\<lparr>t_device := map_option (\<lambda>d. d\<lparr>isOpen := False\<rparr>) (t_device t),
               t_interface := None\<rparr>,
             Resolved (),
             InterfaceRelease True # (case t_device t of None \<Rightarrow> [] | Some _ \<Rightarrow> [DeviceClose]),
             None)"
      using held by blast
    then show ?thesis
      using unset [of "t\<lparr>t_device := map_option (\<lambda>d. d\<lparr>isOpen := False\<rparr>) (t_device t),
               t_interface := None\<rparr>"]
      by simp
  qed
  from unset [of t] held after show ?thesis
    by blast
qed

theorem close_never_fails_witness:
  "close \<lparr>release_outcome = ReleaseCallback (Some (Error ''LIBUSB_ERROR_NOT_FOUND'')),
          device_close_throws = None\<rparr>
      \<lparr>t_device = Some \<lparr>isOpen = True\<rparr>, t_interface = Some \<lparr>claimed = True\<rparr>\<rparr>
   = (\<lparr>t_device = Some \<lparr>isOpen = False\<rparr>, t_interface = None\<rparr>, Resolved (),
      [InterfaceRelease True, DeviceClose], None)
   \<and> close \<lparr>release_outcome = ReleaseThrows (Error ''Device is not opened''),
            device_close_throws = Some (Error ''Cannot close device with a pending request'')\<rparr>
      \<lparr>t_device = None, t_interface = None\<rparr>
   = (\<lparr>t_device = None, t_interface = None\<rparr>, Resolved (), [], None)"
  using close_never_fails
      [where env = "\<lparr>release_outcome = ReleaseCallback (Some (Error ''LIBUSB_ERROR_NOT_FOUND'')),
                       device_close_throws = None\<rparr>"
        and t = "\<lparr>t_device = Some \<lparr>isOpen = True\<rparr>, t_interface = Some \<lparr>claimed = True\<rparr>\<rparr>"
        and env_next = "\<lparr>release_outcome = ReleaseNoCallback, device_close_throws = None\<rparr>"]
    close_never_fails
      [where env = "\<lparr>release_outcome = ReleaseThrows (Error ''Device is not opened''),
                       device_close_throws = Some (Error ''Cannot close device with a pending request'')\<rparr>"
        and t = "\<lparr>t_device = None, t_interface = None\<rparr>"
        and env_next = "\<lparr>release_outcome = ReleaseNoCallback, device_close_throws = None\<rparr>"]
  by simp

text \<open>
  Claim C6 as stated fails in three ways. After a failed claim the interface was never
  claimed, yet \<open>_interface\<close> is set, so \<open>close\<close> does not resolve immediately; it
  requests the release and resolves in the callback, after closing the device handle.
  When \<open>release\<close> throws inside the call, the promise of \<open>close\<close> is rejected with
  that exception. When \<open>_device.close()\<close> throws in the callback, the promise is never
  settled, \<open>_interface\<close> stays set and the exception escapes.
\<close>

theorem close_never_claimed_counterexample:
  "t_interface (init_fields busy_env) = Some \<lparr>claimed = False\<rparr>
   \<and> close_executor (ReleaseCallback (Some (Error ''LIBUSB_ERROR_NOT_FOUND'')))
        (init_fields busy_env)
       = (Pending, [InterfaceRelease True])
   \<and> close \<lparr>release_outcome = ReleaseCallback (Some (Error ''LIBUSB_ERROR_NOT_FOUND'')),
            device_close_throws = None\<rparr> (init_fields busy_env)
       = (\<lparr>t_device = Some \<lparr>isOpen = False\<rparr>, t_interface = None\<rparr>, Resolved (),
          [InterfaceRelease True, DeviceClose], None)
   \<and> close \<lparr>release_outcome = ReleaseThrows (Error ''Device is not opened''),
            device_close_throws = None\<rparr>
        \<lparr>t_device = Some \<lparr>isOpen = True\<rparr>, t_interface = Some \<lparr>claimed = True\<rparr>\<rparr>
       = (\<lparr>t_device = Some \<lparr>isOpen = True\<rparr>, t_interface = Some \<lparr>claimed = True\<rparr>\<rparr>,
          Rejected (Error ''Device is not opened''), [InterfaceRelease True], None)
   \<and> close \<lparr>release_outcome = ReleaseCallback None,
            device_close_throws = Some (Error ''Cannot close device with a pending request'')\<rparr>
        \<lparr>t_device = Some \<lparr>isOpen = True\<rparr>, t_interface = Some \<lparr>claimed = True\<rparr>\<rparr>
       = (\<lparr>t_device = Some \<lparr>isOpen = True\<rparr>, t_interface = Some \<lparr>claimed = True\<rparr>\<rparr>,
          Pending, [InterfaceRelease True, DeviceClose],
          Some (Error ''Cannot close device with a pending request''))"
  by (simp add: busy_env_fields close_def close_executor_def close_release_callback_def
      resolve_def reject_def)

text \<open>
  Claim C8. When a device was found and opened and \<open>interface.claim()\<close> throws: if the
  message of the exception is \<open>LIBUSB_ERROR_BUSY\<close>, the interface promise and the promise
  of \<open>init\<close> are rejected with the error \<open>Device is in use by another process\<close>;
  otherwise both are rejected with the exception itself. In both cases the promise of
  \<open>init\<close> is never resolved, whatever the callbacks of the run report.
\<close>

theorem init_claim_failure:
  assumes "getFirstDevice (deviceList env) = Inr dev"
    and "open_throws env = None"
    and "claim_throws env = Some e"
  shows "getDeviceInterface (claim_throws env) alt_cb endpoints_throw
           = (if message_is e ''LIBUSB_ERROR_BUSY''
              then Rejected (Error ''Device is in use by another process'')
              else Rejected e)
         \<and> init env
           = (if message_is e ''LIBUSB_ERROR_BUSY''
              then Rejected (Error ''Device is in use by another process'')
              else Rejected e)
         \<and> (\<forall>v. init env \<noteq> Resolved v)"
proof (cases "message_is e ''LIBUSB_ERROR_BUSY''")
  case True
  then have ex: "getDeviceInterface_executor (claim_throws env)
      = Rejected (Error ''Device is in use by another process'')"
    unfolding assms(3) by (rule executor_busy)
  from ex have "getDeviceInterface (claim_throws env) alt_cb endpoints_throw
      = Rejected (Error ''Device is in use by another process'')"
    by (rule settled_stays)
  moreover from assms(1,2) ex
  have "init env = Rejected (Error ''Device is in use by another process'')"
    by (rule init_claim_failed)
  ultimately show ?thesis
    using True by simp
next
  case False
  then have ex: "getDeviceInterface_executor (claim_throws env) = Rejected e"
    unfolding assms(3) by (rule executor_other)
  from ex have "getDeviceInterface (claim_throws env) alt_cb endpoints_throw = Rejected e"
    by (rule settled_stays)
  moreover from assms(1,2) ex have "init env = Rejected e"
    by (rule init_claim_failed)
  ultimately show ?thesis
    using False by simp
qed

theorem init_claim_failure_witness:
  "init \<lparr>deviceList = [\<lparr>deviceDescriptor = \<lparr>idVendor = 0x1D50, idProduct = 0x6097, bcdDevice = 0x0100\<rparr>\<rparr>],
         open_throws = None, serial_cb = Some (Inr ''TM-00-04''),
         claim_throws = Some (Error ''LIBUSB_ERROR_BUSY''),
         setAlt_cb = Some (Some (Error ''LIBUSB_ERROR_NOT_FOUND'')),
         initEndpoints_throws = None, serial_first = True\<rparr>
     = Rejected (Error ''Device is in use by another process'')
   \<and> init \<lparr>deviceList = [\<lparr>deviceDescriptor = \<lparr>idVendor = 0x1D50, idProduct = 0x6097, bcdDevice = 0x0100\<rparr>\<rparr>],
         open_throws = None, serial_cb = Some (Inr ''TM-00-04''),
         claim_throws = Some (Error ''LIBUSB_ERROR_ACCESS''),
         setAlt_cb = Some None,
         initEndpoints_throws = None, serial_first = True\<rparr>
     = Rejected (Error ''LIBUSB_ERROR_ACCESS'')"
proof -
  define d :: device where
    "d = \<lparr>deviceDescriptor = \<lparr>idVendor = 0x1D50, idProduct = 0x6097, bcdDevice = 0x0100\<rparr>\<rparr>"
  have "tessel_candidate d"
    by (simp add: tessel_candidate_def d_def)
  then have first: "getFirstDevice [d] = Inr d"
    by (rule getFirstDevice_single)
  define env1 where "env1 = \<lparr>deviceList = [d],
         open_throws = None, serial_cb = Some (Inr ''TM-00-04''),
         claim_throws = Some (Error ''LIBUSB_ERROR_BUSY''),
         setAlt_cb = Some (Some (Error ''LIBUSB_ERROR_NOT_FOUND'')),
         initEndpoints_throws = None, serial_first = True\<rparr>"
  define env2 where "env2 = \<lparr>deviceList = [d],
         open_throws = None, serial_cb = Some (Inr ''TM-00-04''),
         claim_throws = Some (Error ''LIBUSB_ERROR_ACCESS''),
         setAlt_cb = Some None,
         initEndpoints_throws = None, serial_first = True\<rparr>"
  have a: "init env1 = Rejected (Error ''Device is in use by another process'')"
    using init_claim_failure [of env1 d "Error ''LIBUSB_ERROR_BUSY''", THEN conjunct2, THEN conjunct1]
    by (simp add: env1_def first message_is_def)
  have b: "init env2 = Rejected (Error ''LIBUSB_ERROR_ACCESS'')"
    using init_claim_failure [of env2 d "Error ''LIBUSB_ERROR_ACCESS''", THEN conjunct2, THEN conjunct1]
    by (simp add: env2_def first message_is_def)
  from a b show ?thesis
    unfolding env1_def env2_def d_def by (intro conjI)
qed

end
